theory Spec2Isabelle
  imports
    Main
    "HOL-Library.Char_ord"
    "HOL-Library.List_Lexorder"
    "HOL-Library.Product_Lexorder"
    "HOL-Library.Multiset"
begin

section \<open>Tables\<close>

text \<open>
  Both scripts work on pandas data frames. A frame is modelled by its column labels and
  its rows in order; a row gives the cell under each label, \<open>None\<close> being the missing
  value (NaN). All cell values are strings. The row index of a frame is not modelled:
  every file is written with \<open>index=False\<close> and the winners are concatenated with
  \<open>ignore_index=True\<close>.
\<close>

type_synonym cell = "string option"

type_synonym row = "string \<Rightarrow> cell"

record frame =
  columns :: "string list"
  rows :: "row list"

datatype error = KeyError string | FileNotFoundError

text \<open>\<open>pd.DataFrame()\<close>\<close>

definition empty_frame :: frame where
  "empty_frame = \<lparr>columns = [], rows = []\<rparr>"

text \<open>\<open>df.empty\<close>: some axis has length 0.\<close>

definition is_empty :: "frame \<Rightarrow> bool" where
  "is_empty df \<longleftrightarrow> columns df = [] \<or> rows df = []"

text \<open>
  \<open>pd.concat([a, b], ignore_index=True)\<close>: the rows of \<open>a\<close>, then those of \<open>b\<close>; the
  columns of \<open>a\<close>, then the columns of \<open>b\<close> that \<open>a\<close> does not have.
\<close>

definition concat_frames :: "frame \<Rightarrow> frame \<Rightarrow> frame" where
  "concat_frames a b =
     \<lparr>columns = columns a @ filter (\<lambda>c. c \<notin> set (columns a)) (columns b),
      rows = rows a @ rows b\<rparr>"

text \<open>\<open>df[~df[c].isin(xs)]\<close>; \<open>df[c]\<close> raises KeyError when the frame has no column \<open>c\<close>.\<close>

definition drop_isin :: "frame \<Rightarrow> string \<Rightarrow> cell list \<Rightarrow> error + frame" where
  "drop_isin df c xs =
     (if c \<in> set (columns df)
      then Inr (df\<lparr>rows := filter (\<lambda>r. r c \<notin> set xs) (rows df)\<rparr>)
      else Inl (KeyError c))"

text \<open>\<open>df[c] = v\<close> for a scalar \<open>v\<close>: every row gets \<open>v\<close> under \<open>c\<close>.\<close>

definition assign_column :: "frame \<Rightarrow> string \<Rightarrow> string \<Rightarrow> frame" where
  "assign_column df c v =
     \<lparr>columns = (if c \<in> set (columns df) then columns df else columns df @ [c]),
      rows = map (\<lambda>r. r(c := Some v)) (rows df)\<rparr>"

text \<open>\<open>Series.unique()\<close>: the distinct values in order of first appearance, NaN included.\<close>

fun unique :: "'a list \<Rightarrow> 'a list" where
  "unique [] = []"
| "unique (x # xs) = x # unique (filter (\<lambda>y. y \<noteq> x) xs)"

text \<open>
  \<open>Series.value_counts()\<close>: each distinct non-missing value with its number of
  occurrences. pandas orders the result by decreasing count; the only use below
  feeds the labels into \<open>set(...)\<close>, so the order is left as first appearance.
\<close>

definition value_counts :: "cell list \<Rightarrow> (string \<times> nat) list" where
  "value_counts xs =
     (let present = concat (map (\<lambda>x. case x of None \<Rightarrow> [] | Some v \<Rightarrow> [v]) xs)
      in map (\<lambda>v. (v, count_list present v)) (unique present))"

text \<open>
  \<open>df.sample(n)\<close>: \<open>n\<close> rows drawn without replacement. The generator is a parameter:
  a list of numbers, each used (modulo the rows left) to pick the next row, which is
  then taken out of the pool.
\<close>

fun draw_sample :: "nat list \<Rightarrow> nat \<Rightarrow> 'a list \<Rightarrow> 'a list" where
  "draw_sample rnd 0 xs = []"
| "draw_sample rnd (Suc n) [] = []"
| "draw_sample rnd (Suc n) (x # xs) =
     (let i = (case rnd of [] \<Rightarrow> 0 | r # _ \<Rightarrow> r mod length (x # xs))
      in (x # xs) ! i # draw_sample (tl rnd) n (take i (x # xs) @ drop (Suc i) (x # xs)))"

section \<open>The clock\<close>

record datetime =
  year :: nat
  month :: nat
  day :: nat
  hour :: nat
  minute :: nat
  second :: nat

definition digit_char :: "nat \<Rightarrow> char" where
  "digit_char d = char_of (48 + d mod 10)"

definition pad2 :: "nat \<Rightarrow> string" where
  "pad2 n = [digit_char (n div 10), digit_char n]"

definition pad4 :: "nat \<Rightarrow> string" where
  "pad4 n = [digit_char (n div 1000), digit_char (n div 100), digit_char (n div 10), digit_char n]"

text \<open>\<open>strftime("%Y-%m-%d %H:%M:%S")\<close>, for the years 1000 to 9999.\<close>

definition strftime_Ymd_HMS :: "datetime \<Rightarrow> string" where
  "strftime_Ymd_HMS t =
     pad4 (year t) @ ''-'' @ pad2 (month t) @ ''-'' @ pad2 (day t) @ '' '' @
     pad2 (hour t) @ '':'' @ pad2 (minute t) @ '':'' @ pad2 (second t)"


definition is_digit :: "char \<Rightarrow> bool" where
  "is_digit c \<longleftrightarrow> 48 \<le> (of_char c :: nat) \<and> (of_char c :: nat) \<le> 57"

text \<open>A string has the shape of a pattern when it agrees with it, a \<open>9\<close> standing for any digit.\<close>

fun has_shape :: "string \<Rightarrow> string \<Rightarrow> bool" where
  "has_shape [] [] \<longleftrightarrow> True"
| "has_shape (p # ps) (c # cs) \<longleftrightarrow>
     (if p = CHR ''9'' then is_digit c else c = p) \<and> has_shape ps cs"
| "has_shape _ _ \<longleftrightarrow> False"

section \<open>run\_lottery.py\<close>

text \<open>What the script prints, one constructor for each \<open>print\<close>.\<close>

datatype message =
    VisiteursLoaded nat
  | VisiteursNotFound
  | BenevolesLoaded nat
  | BenevolesNotFound
  | TotalParticipants nat
  | NoWinnersFile
  | MissingColumnsWarning string string
  | IneligibleCount nat
  | NoParticipants
  | EligibleTickets nat
  | NoEligibleTickets
  | InvalidInteger
  | NonPositiveCount
  | NotEnoughEligible nat int
  | NewWinners int frame
  | WinnersFileUpdated

text \<open>
  \<open>load_and_concatenate_participants\<close>. A file is \<open>None\<close> when it does not exist, and
  otherwise the frame \<open>pd.read_excel\<close> returns for it.
\<close>

definition load_and_concatenate_participants ::
    "frame option \<Rightarrow> frame option \<Rightarrow> frame \<times> message list" where
  "load_and_concatenate_participants visiteurs_path benevoles_path =
     (let (df_visiteurs, m1) =
            (case visiteurs_path of
               Some df \<Rightarrow> (df, [VisiteursLoaded (length (rows df))])
             | None \<Rightarrow> (empty_frame, [VisiteursNotFound]));
          (df_benevoles, m2) =
            (case benevoles_path of
               Some df \<Rightarrow> (df, [BenevolesLoaded (length (rows df))])
             | None \<Rightarrow> (empty_frame, [BenevolesNotFound]));
          df_entree = concat_frames df_visiteurs df_benevoles
      in (df_entree, m1 @ m2 @ [TotalParticipants (length (rows df_entree))]))"

text \<open>
  \<open>get_ineligible_participants\<close> returns the ineligible names and the winners frame;
  the third component is what it prints. \<open>list(set(...))\<close> has no specified order; the
  model lists the names by first appearance.
\<close>

definition get_ineligible_participants ::
    "frame option \<Rightarrow> string \<Rightarrow> string \<Rightarrow> cell list \<times> frame option \<times> message list" where
  "get_ineligible_participants winners_file_path name_column role_column =
     (case winners_file_path of
        None \<Rightarrow> ([], None, [NoWinnersFile])
      | Some df_gagnants_existants \<Rightarrow>
          if is_empty df_gagnants_existants then ([], Some df_gagnants_existants, [])
          else if name_column \<notin> set (columns df_gagnants_existants)
                  \<or> role_column \<notin> set (columns df_gagnants_existants)
          then ([], Some df_gagnants_existants, [MissingColumnsWarning name_column role_column])
          else
            let gagnants_benevoles =
                  filter (\<lambda>r. r role_column = Some ''Benevole'') (rows df_gagnants_existants);
                gagnants_autres =
                  filter (\<lambda>r. r role_column \<noteq> Some ''Benevole'') (rows df_gagnants_existants);
                personnes_a_exclure_autres = unique (map (\<lambda>r. r name_column) gagnants_autres);
                wins_par_benevole = value_counts (map (\<lambda>r. r name_column) gagnants_benevoles);
                benevoles_a_exclure =
                  map (\<lambda>(n, c). Some n) (filter (\<lambda>(n, c). 2 \<le> c) wins_par_benevole);
                personnes_ineligibles = unique (personnes_a_exclure_autres @ benevoles_a_exclure)
            in (personnes_ineligibles, Some df_gagnants_existants,
                [IneligibleCount (length personnes_ineligibles)]))"

text \<open>
  Everything a run of \<open>main\<close> reads: the three files, the operator's answer already
  through \<open>int(...)\<close> (\<open>None\<close> when that raises ValueError), the random numbers
  of the sampler and the clock.
\<close>

record world =
  visiteurs_xlsx :: "frame option"
  benevoles_xlsx :: "frame option"
  gagnants_xlsx :: "frame option"
  user_input :: "int option"
  random_source :: "nat list"
  clock :: datetime

text \<open>
  What a run leaves: the winners file, what was printed, and the frame of new winners
  once it has been sampled.
\<close>

record run_result =
  gagnants_xlsx_after :: "frame option"
  printed :: "message list"
  df_nouveaux_gagnants :: "frame option"

definition colonne_nom :: string where "colonne_nom = ''nom_du_participant''"
definition colonne_role :: string where "colonne_role = ''ticket_devenement''"
definition colonne_id_ticket :: string where "colonne_id_ticket = ''numero_ticket''"
definition colonne_heure :: string where "colonne_heure = ''heure_du_tirage''"

text \<open>Step 3 of \<open>main\<close>: the name filter, then the ticket filter.\<close>

definition main_filter_eligible :: "frame \<Rightarrow> cell list \<Rightarrow> frame option \<Rightarrow> error + frame" where
  "main_filter_eligible df_entree personnes_ineligibles df_gagnants_existants =
     (case drop_isin df_entree colonne_nom personnes_ineligibles of
        Inl e \<Rightarrow> Inl e
      | Inr df_eligibles \<Rightarrow>
          (case df_gagnants_existants of
             None \<Rightarrow> Inr df_eligibles
           | Some g \<Rightarrow>
               if colonne_id_ticket \<in> set (columns g)
               then drop_isin df_eligibles colonne_id_ticket
                      (map (\<lambda>r. r colonne_id_ticket) (rows g))
               else Inr df_eligibles))"

text \<open>A run that returns early leaves the winners file as it was.\<close>

definition stopped :: "world \<Rightarrow> message list \<Rightarrow> run_result" where
  "stopped w msgs =
     \<lparr>gagnants_xlsx_after = gagnants_xlsx w, printed = msgs, df_nouveaux_gagnants = None\<rparr>"

text \<open>Steps 4 and 5 of \<open>main\<close>: the operator's count, the draw, the save.\<close>

definition main_draw_and_save ::
    "world \<Rightarrow> frame option \<Rightarrow> frame \<Rightarrow> message list \<Rightarrow> run_result" where
  "main_draw_and_save w df_gagnants_existants df_eligibles msgs0 =
     (let msgs = msgs0 @ [EligibleTickets (length (rows df_eligibles))] in
      if is_empty df_eligibles then stopped w (msgs @ [NoEligibleTickets])
      else
        case user_input w of
          None \<Rightarrow> stopped w (msgs @ [InvalidInteger])
        | Some nb_gagnants_a_tirer \<Rightarrow>
            if nb_gagnants_a_tirer \<le> 0 then stopped w (msgs @ [NonPositiveCount])
            else if int (length (rows df_eligibles)) < nb_gagnants_a_tirer
            then stopped w
                   (msgs @ [NotEnoughEligible (length (rows df_eligibles)) nb_gagnants_a_tirer])
            else
              let sampled =
                    df_eligibles\<lparr>rows :=
                      draw_sample (random_source w) (nat nb_gagnants_a_tirer) (rows df_eligibles)\<rparr>;
                  df_nouveaux = assign_column sampled colonne_heure (strftime_Ymd_HMS (clock w));
                  df_final_gagnants =
                    (case df_gagnants_existants of
                       None \<Rightarrow> df_nouveaux
                     | Some g \<Rightarrow> if is_empty g then df_nouveaux else concat_frames g df_nouveaux)
              in \<lparr>gagnants_xlsx_after = Some df_final_gagnants,
                  printed = msgs @ [NewWinners nb_gagnants_a_tirer df_nouveaux, WinnersFileUpdated],
                  df_nouveaux_gagnants = Some df_nouveaux\<rparr>)"

text \<open>The eligible pool that a run computes (steps 2 and 3).\<close>

definition eligible_pool :: "world \<Rightarrow> error + frame" where
  "eligible_pool w =
     (let (df_entree, m2) = load_and_concatenate_participants (visiteurs_xlsx w) (benevoles_xlsx w);
          (personnes_ineligibles, df_gagnants_existants, m3) =
            get_ineligible_participants (gagnants_xlsx w) colonne_nom colonne_role
      in main_filter_eligible df_entree personnes_ineligibles df_gagnants_existants)"

definition main :: "world \<Rightarrow> error + run_result" where
  "main w =
     (let (df_entree, m2) = load_and_concatenate_participants (visiteurs_xlsx w) (benevoles_xlsx w)
      in if is_empty df_entree then Inr (stopped w (m2 @ [NoParticipants]))
         else
           let (personnes_ineligibles, df_gagnants_existants, m3) =
                 get_ineligible_participants (gagnants_xlsx w) colonne_nom colonne_role
           in case main_filter_eligible df_entree personnes_ineligibles df_gagnants_existants of
                Inl e \<Rightarrow> Inl e
              | Inr df_eligibles \<Rightarrow>
                  Inr (main_draw_and_save w df_gagnants_existants df_eligibles (m2 @ m3)))"

text \<open>The candidate pool of a run: the concatenation that step 2 loads.\<close>

definition candidate_pool :: "world \<Rightarrow> frame" where
  "candidate_pool w =
     fst (load_and_concatenate_participants (visiteurs_xlsx w) (benevoles_xlsx w))"

text \<open>The names a run holds ineligible: what \<open>get_ineligible_participants\<close> returns to \<open>main\<close>.\<close>

definition ineligible_names :: "world \<Rightarrow> cell set" where
  "ineligible_names w =
     set (fst (get_ineligible_participants (gagnants_xlsx w) colonne_nom colonne_role))"

section \<open>pivot\_form\_responses\_participants.py\<close>

text \<open>The calls to the logger are not modelled: they change no table.\<close>

text \<open>
  \<open>df.fillna(method='ffill')\<close>: going down the rows, a missing cell takes the value the
  row above has after filling; every column is filled. \<open>prev\<close> is the filled row above.
\<close>

fun ffill_from :: "row \<Rightarrow> row list \<Rightarrow> row list" where
  "ffill_from prev [] = []"
| "ffill_from prev (r # rs) =
     (let filled = (\<lambda>c. case r c of None \<Rightarrow> prev c | Some v \<Rightarrow> Some v)
      in filled # ffill_from filled rs)"

definition ffill :: "frame \<Rightarrow> frame" where
  "ffill df = df\<lparr>rows := ffill_from (\<lambda>c. None) (rows df)\<rparr>"


text \<open>A row of \<open>df_responses\<close>: the three columns selected, and the ordinal added.\<close>

record response =
  nom_du_participant :: cell
  email :: cell
  reponses_des_participants :: cell
  num_reponse :: "nat option"

text \<open>
  The key of a row for \<open>groupby(["nom_du_participant", "email"])\<close>. With the default
  \<open>dropna=True\<close> a row with a missing name or a missing email belongs to no group.
\<close>

fun group_key :: "cell \<Rightarrow> cell \<Rightarrow> (string \<times> string) option" where
  "group_key (Some n) (Some e) = Some (n, e)"
| "group_key _ _ = None"

text \<open>
  \<open>groupby(...).cumcount()\<close>: each row gets the number of earlier rows of its group;
  \<open>seen\<close> holds the keys of the rows above. A row in no group gets NaN.
\<close>

fun cumcount :: "'k list \<Rightarrow> 'k option list \<Rightarrow> nat option list" where
  "cumcount seen [] = []"
| "cumcount seen (None # ks) = None # cumcount seen ks"
| "cumcount seen (Some g # ks) = Some (count_list seen g) # cumcount (g # seen) ks"

text \<open>The three cells of each row that \<open>group_data_by_nam_email\<close> selects.\<close>

definition selected :: "frame \<Rightarrow> (cell \<times> cell \<times> cell) list" where
  "selected df =
     map (\<lambda>r. (r ''nom_du_participant'', r ''email'', r ''reponses_des_participants''))
       (rows df)"

text \<open>
  \<open>df_responses["num_reponse"] = df_responses.groupby(...).cumcount()\<close>: the rows with
  their ordinal as a fourth column.
\<close>

definition with_num_reponse ::
    "(string \<times> string) list \<Rightarrow> (cell \<times> cell \<times> cell) list \<Rightarrow> response list" where
  "with_num_reponse seen df_responses =
     map (\<lambda>((n, e, a), k).
            \<lparr>nom_du_participant = n, email = e,
             reponses_des_participants = a, num_reponse = k\<rparr>)
       (zip df_responses (cumcount seen (map (\<lambda>(n, e, a). group_key n e) df_responses)))"

text \<open>
  \<open>group_data_by_nam_email\<close>: select the three columns (KeyError when one is absent),
  drop the rows without an answer, number the rows of each group.
\<close>

definition group_data_by_nam_email :: "frame \<Rightarrow> error + response list" where
  "group_data_by_nam_email df_filled =
     (case filter (\<lambda>c. c \<notin> set (columns df_filled))
             [''nom_du_participant'', ''email'', ''reponses_des_participants''] of
        c # _ \<Rightarrow> Inl (KeyError c)
      | [] \<Rightarrow>
          let df_responses = filter (\<lambda>(n, e, a). a \<noteq> None) (selected df_filled)
          in Inr (with_num_reponse [] df_responses))"

text \<open>
  \<open>pivot_table(index=[name, email], columns="num_reponse", values=answer,
  aggfunc="first")\<close>. The rows with a missing index key, column key or value take no part.
  The index holds the distinct (name, email) pairs, sorted; the columns hold the distinct
  ordinals, sorted; a cell holds the first value of its pair and ordinal, or NaN.
\<close>

fun pivot_cell :: "response \<Rightarrow> ((string \<times> string) \<times> nat \<times> string) list" where
  "pivot_cell r =
     (case (group_key (nom_du_participant r) (email r), num_reponse r,
            reponses_des_participants r) of
        (Some g, Some k, Some a) \<Rightarrow> [(g, k, a)]
      | _ \<Rightarrow> [])"

declare pivot_cell.simps [simp del]

definition first_value ::
    "((string \<times> string) \<times> nat \<times> string) list \<Rightarrow> string \<times> string \<Rightarrow> nat \<Rightarrow> cell" where
  "first_value cells g c =
     (case filter (\<lambda>(g', k, a). g' = g \<and> k = c) cells of
        [] \<Rightarrow> None
      | (g', k, a) # _ \<Rightarrow> Some a)"

text \<open>Decimal digits of a number, as \<open>str\<close> of a non-negative \<open>int\<close>.\<close>

fun decimal :: "nat \<Rightarrow> string" where
  "decimal n = (if n < 10 then [digit_char n] else decimal (n div 10) @ [digit_char n])"

declare decimal.simps [simp del]

text \<open>
  The pivoted table after \<open>reset_index\<close> and the renaming: its column labels, and for
  each participant the cells under the answer columns, in the order of the columns.
  The ordinals are integers, so every answer column \<open>c\<close> is renamed \<open>reponse_(c+1)\<close>.
\<close>

record pivoted =
  labels :: "string list"
  answer_columns :: "nat list"
  participants :: "((string \<times> string) \<times> cell list) list"

definition pivot_responses :: "response list \<Rightarrow> pivoted" where
  "pivot_responses df_responses =
     (let cells = concat (map pivot_cell df_responses);
          index = sort (remdups (map fst cells));
          cols = sort (remdups (map (\<lambda>(g, k, a). k) cells))
      in \<lparr>labels = [''nom_du_participant'', ''email'']
                      @ map (\<lambda>c. ''reponse_'' @ decimal (c + 1)) cols,
          answer_columns = cols,
          participants = map (\<lambda>g. (g, map (first_value cells g) cols)) index\<rparr>)"



text \<open>
  Reading the tables: the answers a participant has in a list of selected rows, in the
  order of the rows; the cells of a pivoted row that are not missing, in column order;
  the nearest value at or above the end of a column.
\<close>

fun answer_of :: "string \<times> string \<Rightarrow> cell \<times> cell \<times> cell \<Rightarrow> string list" where
  "answer_of g (Some n, Some e, Some a) = (if (n, e) = g then [a] else [])"
| "answer_of g _ = []"

definition answers_of :: "(cell \<times> cell \<times> cell) list \<Rightarrow> string \<times> string \<Rightarrow> string list" where
  "answers_of triples g = concat (map (answer_of g) triples)"

text \<open>The answer of a row, when the row carries a name and an email.\<close>

definition own_answer :: "cell \<times> cell \<times> cell \<Rightarrow> string list" where
  "own_answer t =
     (case group_key (fst t) (fst (snd t)) of None \<Rightarrow> [] | Some g \<Rightarrow> answer_of g t)"

definition present :: "cell list \<Rightarrow> string list" where
  "present cells = concat (map (\<lambda>x. case x of None \<Rightarrow> [] | Some v \<Rightarrow> [v]) cells)"

definition nearest :: "cell list \<Rightarrow> cell" where
  "nearest xs = (case filter (\<lambda>x. x \<noteq> None) xs of [] \<Rightarrow> None | y # ys \<Rightarrow> last (y # ys))"

section \<open>Example data\<close>

definition lottery_columns :: "string list" where
  "lottery_columns = [colonne_nom, colonne_role, colonne_id_ticket]"

definition ledger_columns :: "string list" where
  "ledger_columns = lottery_columns @ [colonne_heure]"

definition participant :: "string \<Rightarrow> string \<Rightarrow> string \<Rightarrow> row" where
  "participant n role t =
     [colonne_nom \<mapsto> n, colonne_role \<mapsto> role, colonne_id_ticket \<mapsto> t]"

definition stamped :: "row \<Rightarrow> string \<Rightarrow> row" where
  "stamped r t = r(colonne_heure \<mapsto> t)"

definition noon :: datetime where
  "noon = \<lparr>year = 2025, month = 6, day = 7, hour = 12, minute = 0, second = 5\<rparr>"

text \<open>A first run: one visitor, two volunteers, no winners file yet, two winners asked for.\<close>

definition first_run :: world where
  "first_run =
     \<lparr>visiteurs_xlsx =
        Some \<lparr>columns = lottery_columns, rows = [participant ''A'' ''Visiteur'' ''T1'']\<rparr>,
      benevoles_xlsx =
        Some \<lparr>columns = lottery_columns,
              rows = [participant ''B'' ''Benevole'' ''T2'', participant ''C'' ''Benevole'' ''T3'']\<rparr>,
      gagnants_xlsx = None,
      user_input = Some 2,
      random_source = [1, 0],
      clock = noon\<rparr>"

text \<open>The same run with an operator who asks for no winner, and with one who asks for four.\<close>

definition zero_count_run :: world where
  "zero_count_run = first_run\<lparr>user_input := Some 0\<rparr>"

definition greedy_run :: world where
  "greedy_run = first_run\<lparr>user_input := Some 4\<rparr>"

text \<open>
  A later run: the visitor A and the volunteer B have won once each; B holds a second
  ticket, T4.
\<close>

definition second_run :: world where
  "second_run =
     \<lparr>visiteurs_xlsx =
        Some \<lparr>columns = lottery_columns, rows = [participant ''A'' ''Visiteur'' ''T1'']\<rparr>,
      benevoles_xlsx =
        Some \<lparr>columns = lottery_columns,
              rows = [participant ''B'' ''Benevole'' ''T2'', participant ''B'' ''Benevole'' ''T4'',
                      participant ''C'' ''Benevole'' ''T3'']\<rparr>,
      gagnants_xlsx =
        Some \<lparr>columns = ledger_columns,
              rows = [stamped (participant ''A'' ''Visiteur'' ''T1'') ''2025-06-07 11:00:00'',
                      stamped (participant ''B'' ''Benevole'' ''T2'') ''2025-06-07 11:00:00'']\<rparr>,
      user_input = Some 1,
      random_source = [0],
      clock = noon\<rparr>"

text \<open>A run whose only candidate has already won: the eligible pool is empty.\<close>

definition exhausted_run :: world where
  "exhausted_run =
     \<lparr>visiteurs_xlsx =
        Some \<lparr>columns = lottery_columns, rows = [participant ''A'' ''Visiteur'' ''T1'']\<rparr>,
      benevoles_xlsx = None,
      gagnants_xlsx =
        Some \<lparr>columns = ledger_columns,
              rows = [stamped (participant ''A'' ''Visiteur'' ''T1'') ''2025-06-07 11:00:00'']\<rparr>,
      user_input = Some 1,
      random_source = [0],
      clock = noon\<rparr>"

text \<open>A winners file from before the role rule: it records tickets and times only.\<close>

definition old_ledger_run :: world where
  "old_ledger_run =
     second_run\<lparr>gagnants_xlsx :=
        Some \<lparr>columns = [colonne_id_ticket, colonne_heure],
              rows = [[colonne_id_ticket \<mapsto> ''T1'', colonne_heure \<mapsto> ''2025-06-07 11:00:00'']]\<rparr>\<rparr>"

text \<open>
  An export of answers, with one row of Alice that has no answer, and an export where Bob
  has registered without answering.
\<close>

definition answer_columns_of_sheet :: "string list" where
  "answer_columns_of_sheet = [''nom_du_participant'', ''email'', ''reponses_des_participants'']"

definition answer :: "string \<Rightarrow> string \<Rightarrow> string \<Rightarrow> row" where
  "answer n e a =
     [''nom_du_participant'' \<mapsto> n, ''email'' \<mapsto> e, ''reponses_des_participants'' \<mapsto> a]"

definition no_answer :: "string \<Rightarrow> string \<Rightarrow> row" where
  "no_answer n e = [''nom_du_participant'' \<mapsto> n, ''email'' \<mapsto> e]"

definition answer_sheet :: frame where
  "answer_sheet =
     \<lparr>columns = answer_columns_of_sheet,
      rows = [answer ''Bob'' ''e2'' ''Maybe'', answer ''Alice'' ''e1'' ''Yes'',
              no_answer ''Alice'' ''e1'', answer ''Alice'' ''e1'' ''No'']\<rparr>"

text \<open>
  A sheet as the form exports it: the answer cell is empty on some rows of Alice and of
  Bob, and Bob's first row comes right after Alice's rows.
\<close>

definition sparse_sheet :: frame where
  "sparse_sheet =
     \<lparr>columns = answer_columns_of_sheet,
      rows = [answer ''Alice'' ''e1'' ''Yes'', no_answer ''Alice'' ''e1'',
              no_answer ''Bob'' ''e2'', answer ''Bob'' ''e2'' ''No'',
              no_answer ''Bob'' ''e2'']\<rparr>"

text \<open>
  A sheet whose first participant gave no email, and the answer rows
  \<open>group_data_by_nam_email\<close> makes of it.
\<close>

definition no_email_sheet :: frame where
  "no_email_sheet =
     \<lparr>columns = answer_columns_of_sheet,
      rows = [[''nom_du_participant'' \<mapsto> ''Alice'', ''reponses_des_participants'' \<mapsto> ''Yes''],
              answer ''Bob'' ''e2'' ''Maybe'']\<rparr>"

definition no_email_rows :: "response list" where
  "no_email_rows =
     [\<lparr>nom_du_participant = Some ''Alice'', email = None,
       reponses_des_participants = Some ''Yes'', num_reponse = None\<rparr>,
      \<lparr>nom_du_participant = Some ''Bob'', email = Some ''e2'',
       reponses_des_participants = Some ''Maybe'', num_reponse = Some 0\<rparr>]"

section \<open>Properties of the lottery\<close>

subsection \<open>Auxiliary facts\<close>

lemma set_unique [simp]: "set (unique xs) = set xs"
  by (induction xs rule: unique.induct) auto

lemma distinct_unique [simp]: "distinct (unique xs)"
  by (induction xs rule: unique.induct) auto

lemma length_draw_sample: "n \<le> length xs \<Longrightarrow> length (draw_sample rnd n xs) = n"
proof (induction rnd n xs rule: draw_sample.induct)
  case (3 rnd n x xs)
  let ?i = "case rnd of [] \<Rightarrow> 0 | r # _ \<Rightarrow> r mod length (x # xs)"
  have "?i < length (x # xs)" by (auto split: list.splits)
  then have "n \<le> length (take ?i (x # xs) @ drop (Suc ?i) (x # xs))"
    using 3(2) by auto
  with 3(1)[OF refl] show ?case
    by (simp add: Let_def)
qed auto

lemma count_present:
  "count_list (concat (map (\<lambda>x. case x of None \<Rightarrow> [] | Some v \<Rightarrow> [v]) xs)) v
     = length (filter (\<lambda>x. x = Some v) xs)"
  by (induction xs) (auto split: option.splits)

lemma set_present:
  "set (concat (map (\<lambda>x. case x of None \<Rightarrow> [] | Some v \<Rightarrow> [v]) xs)) = {v. Some v \<in> set xs}"
  by (induction xs) (auto split: option.splits)

lemma value_counts_set:
  "set (value_counts xs) =
     {(v, c). Some v \<in> set xs \<and> c = length (filter (\<lambda>x. x = Some v) xs)}"
  by (auto simp: value_counts_def Let_def count_present set_present)

lemma drop_isin_Nil: "c \<in> set (columns df) \<Longrightarrow> drop_isin df c [] = Inr df"
  by (simp add: drop_isin_def)

lemma get_ineligible_frame [simp]:
  "fst (snd (get_ineligible_participants f n r)) = f"
  by (simp add: get_ineligible_participants_def Let_def split: option.splits)

lemma main_unfold:
  "main w =
     (if is_empty (candidate_pool w)
      then Inr (stopped w (snd (load_and_concatenate_participants (visiteurs_xlsx w) (benevoles_xlsx w)) @ [NoParticipants]))
      else case eligible_pool w of
             Inl e \<Rightarrow> Inl e
           | Inr el \<Rightarrow>
               Inr (main_draw_and_save w (gagnants_xlsx w) el
                      (snd (load_and_concatenate_participants (visiteurs_xlsx w) (benevoles_xlsx w)) @
                       snd (snd (get_ineligible_participants (gagnants_xlsx w) colonne_nom colonne_role)))))"
proof -
  obtain a b c where g: "get_ineligible_participants (gagnants_xlsx w) colonne_nom colonne_role = (a, b, c)"
    by (cases "get_ineligible_participants (gagnants_xlsx w) colonne_nom colonne_role") auto
  from get_ineligible_frame[of "gagnants_xlsx w" colonne_nom colonne_role] g
  have b: "b = gagnants_xlsx w" by simp
  obtain d m where l: "load_and_concatenate_participants (visiteurs_xlsx w) (benevoles_xlsx w) = (d, m)"
    by (cases "load_and_concatenate_participants (visiteurs_xlsx w) (benevoles_xlsx w)") auto
  show ?thesis
    by (simp add: main_def eligible_pool_def candidate_pool_def g l b split: sum.splits)
qed

lemma drop_isin_columns: "drop_isin df c xs = Inr el \<Longrightarrow> columns el = columns df"
  by (auto simp: drop_isin_def split: if_splits)

lemma drop_isin_rows:
  "drop_isin df c xs = Inr el \<Longrightarrow> rows el = filter (\<lambda>r. r c \<notin> set xs) (rows df)"
  by (auto simp: drop_isin_def split: if_splits)

lemma main_filter_eligible_columns:
  "main_filter_eligible df xs g = Inr el \<Longrightarrow> columns el = columns df"
  by (auto simp: main_filter_eligible_def split: sum.splits option.splits if_splits
      dest!: drop_isin_columns)

lemma eligible_pool_columns:
  "eligible_pool w = Inr el \<Longrightarrow> columns el = columns (candidate_pool w)"
  by (auto simp: eligible_pool_def candidate_pool_def split: prod.splits
      dest: main_filter_eligible_columns)

lemma stopped_simps [simp]:
  "gagnants_xlsx_after (stopped w m) = gagnants_xlsx w"
  "df_nouveaux_gagnants (stopped w m) = None"
  "printed (stopped w m) = m"
  by (simp_all add: stopped_def)

lemma draw_invalid_count:
  assumes "user_input w = None \<or> (\<exists>n. user_input w = Some n \<and> n \<le> 0)"
  shows "main_draw_and_save w g el m =
           stopped w (m @ [EligibleTickets (length (rows el)),
             if is_empty el then NoEligibleTickets
             else if user_input w = None then InvalidInteger else NonPositiveCount])"
  using assms by (auto simp: main_draw_and_save_def Let_def)

lemma load_messages:
  "set (snd (load_and_concatenate_participants v b)) \<subseteq>
     range VisiteursLoaded \<union> range BenevolesLoaded \<union> range TotalParticipants
       \<union> {VisiteursNotFound, BenevolesNotFound}"
  by (auto simp: load_and_concatenate_participants_def Let_def split: option.splits)

lemma ineligible_messages:
  "set (snd (snd (get_ineligible_participants f n r))) \<subseteq>
     range IneligibleCount \<union> {NoWinnersFile, MissingColumnsWarning n r}"
  by (auto simp: get_ineligible_participants_def Let_def split: option.splits)

lemma draw_insufficient:
  assumes "user_input w = Some n" "int (length (rows el)) < n"
  shows "main_draw_and_save w g el m =
           stopped w (m @ [EligibleTickets (length (rows el)),
             if is_empty el then NoEligibleTickets
             else NotEnoughEligible (length (rows el)) n])"
  using assms by (auto simp: main_draw_and_save_def Let_def)

lemma draw_success:
  assumes "df_nouveaux_gagnants (main_draw_and_save w g el m) = Some new"
  shows "\<exists>nb. user_input w = Some nb \<and> 0 < nb \<and> nb \<le> int (length (rows el))
           \<and> new = assign_column
                     (el\<lparr>rows := draw_sample (random_source w) (nat nb) (rows el)\<rparr>)
                     colonne_heure (strftime_Ymd_HMS (clock w))
           \<and> gagnants_xlsx_after (main_draw_and_save w g el m) =
               Some (case g of None \<Rightarrow> new
                     | Some old \<Rightarrow> if is_empty old then new else concat_frames old new)"
  using assms
  by (auto simp: main_draw_and_save_def Let_def split: if_splits option.splits)

lemma main_success:
  assumes "main w = Inr res" "df_nouveaux_gagnants res = Some new"
  shows "\<exists>el m. eligible_pool w = Inr el \<and> res = main_draw_and_save w (gagnants_xlsx w) el m"
  using assms by (auto simp: main_unfold split: if_splits sum.splits)

lemma is_digit_digit_char [simp]: "is_digit (digit_char d)"
proof -
  have "48 + d mod 10 < 256" by simp
  then have "(48 + d mod 10) mod 256 = 48 + d mod 10" by (rule mod_less)
  then show ?thesis
    by (simp add: is_digit_def digit_char_def)
qed

lemma strftime_shape: "has_shape ''9999-99-99 99:99:99'' (strftime_Ymd_HMS t)"
  by (simp add: strftime_Ymd_HMS_def pad2_def pad4_def)

lemma length_filter_map: "length (filter P (map f xs)) = length (filter (\<lambda>x. P (f x)) xs)"
  by (induction xs) auto

lemma ineligible_names_set:
  assumes "\<not> is_empty g" and "n \<in> set (columns g)" and "r \<in> set (columns g)"
  shows "set (fst (get_ineligible_participants (Some g) n r)) =
           {x n | x. x \<in> set (rows g) \<and> x r \<noteq> Some ''Benevole''}
           \<union> {Some v | v. 2 \<le> length (filter (\<lambda>x. x r = Some ''Benevole'' \<and> x n = Some v) (rows g))}"
proof -
  have len: "length (filter (\<lambda>x. x = Some v) (map (\<lambda>x. x n) (filter (\<lambda>x. x r = Some ''Benevole'') (rows g))))
        = length (filter (\<lambda>x. x r = Some ''Benevole'' \<and> x n = Some v) (rows g))" for v
    by (simp add: length_filter_map)
  have pos: "2 \<le> length (filter (\<lambda>x. x r = Some ''Benevole'' \<and> x n = Some v) (rows g))
      \<Longrightarrow> \<exists>x \<in> set (rows g). x r = Some ''Benevole'' \<and> x n = Some v" for v
  proof -
    assume "2 \<le> length (filter (\<lambda>x. x r = Some ''Benevole'' \<and> x n = Some v) (rows g))"
    then have "filter (\<lambda>x. x r = Some ''Benevole'' \<and> x n = Some v) (rows g) \<noteq> []" by auto
    then show ?thesis by (simp add: filter_empty_conv)
  qed
  have B: "set (map (\<lambda>(v, c). Some v)
               (filter (\<lambda>(v, c). 2 \<le> c)
                 (value_counts (map (\<lambda>x. x n) (filter (\<lambda>x. x r = Some ''Benevole'') (rows g))))))
        = {Some v | v. 2 \<le> length (filter (\<lambda>x. x r = Some ''Benevole'' \<and> x n = Some v) (rows g))}"
    (is "?L = ?R")
  proof
    show "?L \<subseteq> ?R" by (auto simp: value_counts_set len)
    show "?R \<subseteq> ?L"
    proof
      fix y assume "y \<in> ?R"
      then obtain v where y: "y = Some v"
        and v: "2 \<le> length (filter (\<lambda>x. x r = Some ''Benevole'' \<and> x n = Some v) (rows g))"
        by blast
      from pos[OF v] obtain x where x: "x \<in> set (rows g)" "x r = Some ''Benevole''"
        and xn: "x n = Some v"
        by blast
      from x have "x \<in> set (filter (\<lambda>x. x r = Some ''Benevole'') (rows g))" by simp
      then have "x n \<in> (\<lambda>x. x n) ` set (filter (\<lambda>x. x r = Some ''Benevole'') (rows g))"
        by (rule imageI)
      then have "Some v \<in> set (map (\<lambda>x. x n) (filter (\<lambda>x. x r = Some ''Benevole'') (rows g)))"
        unfolding xn set_map .
      with v have "(v, length (filter (\<lambda>x. x r = Some ''Benevole'' \<and> x n = Some v) (rows g)))
          \<in> set (filter (\<lambda>(v, c). 2 \<le> c)
                 (value_counts (map (\<lambda>x. x n) (filter (\<lambda>x. x r = Some ''Benevole'') (rows g)))))"
        by (simp add: value_counts_set len)
      then have "(\<lambda>(v, c). Some v)
            (v, length (filter (\<lambda>x. x r = Some ''Benevole'' \<and> x n = Some v) (rows g))) \<in> ?L"
        unfolding set_map by (rule imageI)
      then show "y \<in> ?L" unfolding y by simp
    qed
  qed
  have A: "set (map (\<lambda>x. x n) (filter (\<lambda>x. x r \<noteq> Some ''Benevole'') (rows g)))
      = {x n | x. x \<in> set (rows g) \<and> x r \<noteq> Some ''Benevole''}"
    by auto
  show ?thesis
    using assms unfolding get_ineligible_participants_def Let_def
    by (simp only: option.case if_False fst_conv set_unique set_append A B simp_thms)
qed
lemma eligible_pool_unfold:
  "eligible_pool w =
     main_filter_eligible (candidate_pool w)
       (fst (get_ineligible_participants (gagnants_xlsx w) colonne_nom colonne_role))
       (gagnants_xlsx w)"
proof -
  obtain a b c where g: "get_ineligible_participants (gagnants_xlsx w) colonne_nom colonne_role = (a, b, c)"
    by (cases "get_ineligible_participants (gagnants_xlsx w) colonne_nom colonne_role") auto
  from get_ineligible_frame[of "gagnants_xlsx w" colonne_nom colonne_role] g
  have b: "b = gagnants_xlsx w" by simp
  show ?thesis
    by (simp add: eligible_pool_def candidate_pool_def g b split: prod.splits)
qed

lemma main_filter_eligible_rows:
  assumes "main_filter_eligible df xs g = Inr el"
  shows "rows el =
           filter (\<lambda>c. c colonne_nom \<notin> set xs
                     \<and> (\<forall>old. g = Some old \<longrightarrow> colonne_id_ticket \<in> set (columns old) \<longrightarrow>
                          c colonne_id_ticket \<notin> set (map (\<lambda>r. r colonne_id_ticket) (rows old))))
             (rows df)"
  using assms
  by (auto simp: main_filter_eligible_def drop_isin_def
      split: sum.splits option.splits if_splits)

lemma main_filter_eligible_ok:
  assumes "colonne_nom \<in> set (columns df)" "colonne_id_ticket \<in> set (columns df)"
  shows "\<exists>el. main_filter_eligible df xs g = Inr el"
  using assms
  by (auto simp: main_filter_eligible_def drop_isin_def split: option.splits)

lemmas example_defs =
  first_run_def zero_count_run_def greedy_run_def second_run_def exhausted_run_def
  old_ledger_run_def lottery_columns_def ledger_columns_def participant_def stamped_def noon_def
  colonne_nom_def colonne_role_def colonne_id_ticket_def colonne_heure_def

lemmas run_defs =
  candidate_pool_def load_and_concatenate_participants_def concat_frames_def empty_frame_def
  eligible_pool_def get_ineligible_participants_def main_filter_eligible_def drop_isin_def
  is_empty_def value_counts_def

lemmas main_defs = main_def main_draw_and_save_def assign_column_def stopped_def Let_def

subsection \<open>C1: who is excluded by the role rule\<close>

text \<open>
  Claim C1. For a winners file that has rows and the name and role columns, the names
  \<open>get_ineligible_participants\<close> returns are exactly the names of the entries whose
  role is not \<open>Benevole\<close>, together with the names that have two or more entries with
  role \<open>Benevole\<close>. Hence every non-volunteer winner is ineligible after one win, a
  volunteer with a single win is not, and a volunteer with two or more wins is. The
  eligible pool of the run keeps exactly the candidate rows whose name is not ineligible
  and whose ticket is not in the winners file.
\<close>

theorem role_rule_ineligible_names:
  assumes "gagnants_xlsx w = Some g"
    and "\<not> is_empty g"
    and "colonne_nom \<in> set (columns g)"
    and "colonne_role \<in> set (columns g)"
  shows "ineligible_names w =
           {r colonne_nom | r. r \<in> set (rows g) \<and> r colonne_role \<noteq> Some ''Benevole''}
           \<union> {Some n | n. 2 \<le> length (filter (\<lambda>r. r colonne_role = Some ''Benevole''
                                               \<and> r colonne_nom = Some n) (rows g))}
       \<and> (\<forall>r \<in> set (rows g).
             r colonne_role \<noteq> Some ''Benevole'' \<longrightarrow> r colonne_nom \<in> ineligible_names w)
       \<and> (\<forall>n. length (filter (\<lambda>r. r colonne_nom = Some n) (rows g)) = 1
             \<and> (\<forall>r \<in> set (rows g).
                   r colonne_nom = Some n \<longrightarrow> r colonne_role = Some ''Benevole'')
             \<longrightarrow> Some n \<notin> ineligible_names w)
       \<and> (\<forall>n. 2 \<le> length (filter (\<lambda>r. r colonne_role = Some ''Benevole''
                                        \<and> r colonne_nom = Some n) (rows g))
             \<longrightarrow> Some n \<in> ineligible_names w)
       \<and> (\<forall>el. eligible_pool w = Inr el \<longrightarrow>
             rows el =
               filter (\<lambda>c. c colonne_nom \<notin> ineligible_names w
                         \<and> (colonne_id_ticket \<in> set (columns g) \<longrightarrow>
                              c colonne_id_ticket
                                \<notin> set (map (\<lambda>r. r colonne_id_ticket) (rows g))))
                 (rows (candidate_pool w)))"
proof -
  have eq: "ineligible_names w =
           {r colonne_nom | r. r \<in> set (rows g) \<and> r colonne_role \<noteq> Some ''Benevole''}
           \<union> {Some n | n. 2 \<le> length (filter (\<lambda>r. r colonne_role = Some ''Benevole''
                                               \<and> r colonne_nom = Some n) (rows g))}"
    unfolding ineligible_names_def assms(1) by (rule ineligible_names_set[OF assms(2,3,4)])
  have others: "\<forall>r \<in> set (rows g).
      r colonne_role \<noteq> Some ''Benevole'' \<longrightarrow> r colonne_nom \<in> ineligible_names w"
    unfolding eq by blast
  have twice: "\<forall>n. 2 \<le> length (filter (\<lambda>r. r colonne_role = Some ''Benevole''
                                      \<and> r colonne_nom = Some n) (rows g))
             \<longrightarrow> Some n \<in> ineligible_names w"
    unfolding eq by blast
  have once: "\<forall>n. length (filter (\<lambda>r. r colonne_nom = Some n) (rows g)) = 1
             \<and> (\<forall>r \<in> set (rows g).
                   r colonne_nom = Some n \<longrightarrow> r colonne_role = Some ''Benevole'')
             \<longrightarrow> Some n \<notin> ineligible_names w"
  proof (intro allI impI, elim conjE)
    fix n
    assume one: "length (filter (\<lambda>r. r colonne_nom = Some n) (rows g)) = 1"
      and vol: "\<forall>r \<in> set (rows g).
                  r colonne_nom = Some n \<longrightarrow> r colonne_role = Some ''Benevole''"
    have "length (filter (\<lambda>r. r colonne_role = Some ''Benevole'' \<and> r colonne_nom = Some n) (rows g))
        \<le> length (filter (\<lambda>r. r colonne_nom = Some n) (rows g))"
    proof -
      have "filter (\<lambda>r. r colonne_role = Some ''Benevole'' \<and> r colonne_nom = Some n) (rows g)
        = filter (\<lambda>r. r colonne_role = Some ''Benevole'')
            (filter (\<lambda>r. r colonne_nom = Some n) (rows g))"
        by (simp add: conj_commute)
      then show ?thesis by (simp only: length_filter_le)
    qed
    with one have "\<not> 2 \<le> length (filter (\<lambda>r. r colonne_role = Some ''Benevole''
                                               \<and> r colonne_nom = Some n) (rows g))"
      by simp
    moreover have "Some n \<notin>
        {r colonne_nom | r. r \<in> set (rows g) \<and> r colonne_role \<noteq> Some ''Benevole''}"
      using vol by force
    ultimately show "Some n \<notin> ineligible_names w" unfolding eq by blast
  qed
  have pool: "\<forall>el. eligible_pool w = Inr el \<longrightarrow>
             rows el =
               filter (\<lambda>c. c colonne_nom \<notin> ineligible_names w
                         \<and> (colonne_id_ticket \<in> set (columns g) \<longrightarrow>
                              c colonne_id_ticket
                                \<notin> set (map (\<lambda>r. r colonne_id_ticket) (rows g))))
                 (rows (candidate_pool w))"
    unfolding eligible_pool_unfold ineligible_names_def
    by (auto simp: assms(1) dest!: main_filter_eligible_rows)
  from eq others once twice pool show ?thesis by (intro conjI)
qed

theorem role_rule_ineligible_names_witness:
  "Some ''A'' \<in> ineligible_names second_run
   \<and> Some ''B'' \<notin> ineligible_names second_run
   \<and> (\<exists>el. eligible_pool second_run = Inr el
         \<and> map (\<lambda>r. r colonne_id_ticket) (rows el) = [Some ''T4'', Some ''T3''])"
proof -
  define g where "g = the (gagnants_xlsx second_run)"
  have h1: "gagnants_xlsx second_run = Some g" by (simp add: g_def second_run_def)
  have h2: "\<not> is_empty g" by (simp add: g_def is_empty_def example_defs)
  have h3: "colonne_nom \<in> set (columns g)" by (simp add: g_def example_defs)
  have h4: "colonne_role \<in> set (columns g)" by (simp add: g_def example_defs)
  note T = role_rule_ineligible_names [OF h1 h2 h3 h4]
  have a: "Some ''A'' \<in> ineligible_names second_run"
    using T [THEN conjunct2, THEN conjunct1] by (simp add: g_def example_defs)
  have "length (filter (\<lambda>r. r colonne_nom = Some ''B'') (rows g)) = 1
        \<and> (\<forall>r \<in> set (rows g). r colonne_nom = Some ''B'' \<longrightarrow> r colonne_role = Some ''Benevole'')"
    by (simp add: g_def example_defs)
  with T [THEN conjunct2, THEN conjunct2, THEN conjunct1]
  have b: "Some ''B'' \<notin> ineligible_names second_run" by blast
  have "\<exists>el. eligible_pool second_run = Inr el
         \<and> map (\<lambda>r. r colonne_id_ticket) (rows el) = [Some ''T4'', Some ''T3'']"
    by (simp add: example_defs run_defs)
  with a b show ?thesis by blast
qed

subsection \<open>C2: a pool smaller than the count\<close>

text \<open>
  Claim C2. When the operator asks for more winners than the eligible pool holds, the run
  stops: nothing is sampled and the winners file is left as it was. With an empty pool the
  run stops on the message that no eligible ticket is left (the count is not even read);
  otherwise on the message that reports the size of the pool and the count asked for.
\<close>

theorem insufficient_pool_aborts:
  assumes "\<not> is_empty (candidate_pool w)"
    and "eligible_pool w = Inr el"
    and "user_input w = Some n"
    and "int (length (rows el)) < n"
  shows "\<exists>res. main w = Inr res
           \<and> gagnants_xlsx_after res = gagnants_xlsx w
           \<and> df_nouveaux_gagnants res = None
           \<and> last (printed res) =
               (if rows el = [] then NoEligibleTickets
                else NotEnoughEligible (length (rows el)) n)"
proof -
  have "columns el \<noteq> []"
    using assms(1,2) by (auto simp: is_empty_def dest: eligible_pool_columns)
  then have "is_empty el \<longleftrightarrow> rows el = []" by (simp add: is_empty_def)
  then show ?thesis
    using assms by (simp add: main_unfold draw_insufficient)
qed

theorem insufficient_pool_aborts_witness:
  "(\<exists>res. main greedy_run = Inr res
      \<and> gagnants_xlsx_after res = None
      \<and> df_nouveaux_gagnants res = None
      \<and> last (printed res) = NotEnoughEligible 3 4)
   \<and> (\<exists>res. main exhausted_run = Inr res
      \<and> gagnants_xlsx_after res = gagnants_xlsx exhausted_run
      \<and> df_nouveaux_gagnants res = None
      \<and> last (printed res) = NoEligibleTickets)"
proof -
  have g1: "\<not> is_empty (candidate_pool greedy_run)" by (simp add: example_defs run_defs)
  have g2: "eligible_pool greedy_run = Inr (candidate_pool greedy_run)"
    by (simp add: example_defs run_defs)
  have g3: "user_input greedy_run = Some 4" by (simp add: example_defs)
  have g4: "length (rows (candidate_pool greedy_run)) = 3" by (simp add: example_defs run_defs)
  have g5: "gagnants_xlsx greedy_run = None" by (simp add: example_defs)
  have g6: "rows (candidate_pool greedy_run) \<noteq> []" using g4 by auto
  have e1: "\<not> is_empty (candidate_pool exhausted_run)" by (simp add: example_defs run_defs)
  have e2: "eligible_pool exhausted_run = Inr ((candidate_pool exhausted_run)\<lparr>rows := []\<rparr>)"
    by (simp add: example_defs run_defs)
  have e3: "user_input exhausted_run = Some 1" by (simp add: example_defs)
  from insufficient_pool_aborts [OF g1 g2 g3] insufficient_pool_aborts [OF e1 e2 e3]
  show ?thesis by (simp add: g4 g5 g6)
qed

subsection \<open>C5: a winners file without the name or role column\<close>

text \<open>
  Claim C5. When the winners file has rows but lacks the name column or the role column,
  \<open>get_ineligible_participants\<close> prints a warning and returns no name; the run goes on
  (it does not raise), and the eligible pool is the candidate pool without the rows whose
  ticket is in the ticket column of the winners file, when the file has that column. The
  candidate pool carries the name and ticket columns the script reads.
\<close>

theorem missing_columns_ticket_only:
  assumes "gagnants_xlsx w = Some g"
    and "\<not> is_empty g"
    and "colonne_nom \<notin> set (columns g) \<or> colonne_role \<notin> set (columns g)"
    and "colonne_nom \<in> set (columns (candidate_pool w))"
    and "colonne_id_ticket \<in> set (columns (candidate_pool w))"
  shows "get_ineligible_participants (gagnants_xlsx w) colonne_nom colonne_role =
           ([], Some g, [MissingColumnsWarning colonne_nom colonne_role])
       \<and> (\<exists>el. eligible_pool w = Inr el
            \<and> rows el = filter (\<lambda>c. colonne_id_ticket \<in> set (columns g) \<longrightarrow>
                                c colonne_id_ticket \<notin> set (map (\<lambda>r. r colonne_id_ticket) (rows g)))
                          (rows (candidate_pool w)))
       \<and> (\<exists>res. main w = Inr res
            \<and> (\<not> is_empty (candidate_pool w) \<longrightarrow>
                 MissingColumnsWarning colonne_nom colonne_role \<in> set (printed res)))"
proof -
  have g: "get_ineligible_participants (gagnants_xlsx w) colonne_nom colonne_role =
           ([], Some g, [MissingColumnsWarning colonne_nom colonne_role])"
    using assms(1,2,3) by (auto simp: get_ineligible_participants_def)
  from main_filter_eligible_ok[OF assms(4,5)] obtain el where
    el: "eligible_pool w = Inr el" unfolding eligible_pool_unfold by blast
  have rows: "rows el = filter (\<lambda>c. colonne_id_ticket \<in> set (columns g) \<longrightarrow>
                                c colonne_id_ticket \<notin> set (map (\<lambda>r. r colonne_id_ticket) (rows g)))
                          (rows (candidate_pool w))"
    using el unfolding eligible_pool_unfold g fst_conv
    by (auto simp: assms(1) dest!: main_filter_eligible_rows)
  have "\<exists>res. main w = Inr res
            \<and> (\<not> is_empty (candidate_pool w) \<longrightarrow>
                 MissingColumnsWarning colonne_nom colonne_role \<in> set (printed res))"
    by (simp add: main_unfold el g main_draw_and_save_def Let_def split: option.splits)
  with g el rows show ?thesis by blast
qed

theorem missing_columns_ticket_only_witness:
  "fst (get_ineligible_participants (gagnants_xlsx old_ledger_run) colonne_nom colonne_role) = []
   \<and> (\<exists>el. eligible_pool old_ledger_run = Inr el
         \<and> map (\<lambda>r. r colonne_id_ticket) (rows el) = [Some ''T2'', Some ''T4'', Some ''T3''])
   \<and> (\<exists>res. main old_ledger_run = Inr res
         \<and> MissingColumnsWarning colonne_nom colonne_role \<in> set (printed res))"
proof -
  define g where "g = the (gagnants_xlsx old_ledger_run)"
  have h1: "gagnants_xlsx old_ledger_run = Some g" by (simp add: g_def example_defs)
  have h2: "\<not> is_empty g" by (simp add: g_def is_empty_def example_defs)
  have h3: "colonne_nom \<notin> set (columns g) \<or> colonne_role \<notin> set (columns g)"
    by (simp add: g_def example_defs)
  have h4: "colonne_nom \<in> set (columns (candidate_pool old_ledger_run))"
    by (simp add: example_defs run_defs)
  have h5: "colonne_id_ticket \<in> set (columns (candidate_pool old_ledger_run))"
    by (simp add: example_defs run_defs)
  have p: "\<not> is_empty (candidate_pool old_ledger_run)" by (simp add: example_defs run_defs)
  have r: "map (\<lambda>r. r colonne_id_ticket)
             (filter (\<lambda>c. colonne_id_ticket \<in> set (columns g) \<longrightarrow>
                        c colonne_id_ticket \<notin> set (map (\<lambda>r. r colonne_id_ticket) (rows g)))
                (rows (candidate_pool old_ledger_run)))
           = [Some ''T2'', Some ''T4'', Some ''T3'']"
    by (simp add: g_def example_defs run_defs)
  from missing_columns_ticket_only [OF h1 h2 h3 h4 h5] p r
  show ?thesis by auto
qed

subsection \<open>C6: an empty ledger excludes nobody\<close>

text \<open>
  Claim C6. When the winners file does not exist, or holds no row, the eligible pool is
  the candidate pool unchanged: no row is filtered out by the name rule or by the ticket
  rule. The candidate pool carries the name and ticket columns the script reads (without
  them \<open>df[c]\<close> raises KeyError whatever the ledger holds).
\<close>

theorem empty_ledger_everyone_eligible:
  assumes "gagnants_xlsx w = None \<or> (\<exists>g. gagnants_xlsx w = Some g \<and> rows g = [])"
    and "colonne_nom \<in> set (columns (candidate_pool w))"
    and "colonne_id_ticket \<in> set (columns (candidate_pool w))"
  shows "eligible_pool w = Inr (candidate_pool w)"
  using assms
  by (auto simp: eligible_pool_def candidate_pool_def get_ineligible_participants_def
      main_filter_eligible_def drop_isin_Nil is_empty_def split: prod.splits)

theorem empty_ledger_everyone_eligible_witness:
  "eligible_pool first_run = Inr (candidate_pool first_run)
   \<and> length (rows (candidate_pool first_run)) = 3"
proof -
  have h1: "gagnants_xlsx first_run = None \<or> (\<exists>g. gagnants_xlsx first_run = Some g \<and> rows g = [])"
    by (simp add: example_defs)
  have h2: "colonne_nom \<in> set (columns (candidate_pool first_run))"
    by (simp add: example_defs run_defs)
  have h3: "colonne_id_ticket \<in> set (columns (candidate_pool first_run))"
    by (simp add: example_defs run_defs)
  have "length (rows (candidate_pool first_run)) = 3" by (simp add: example_defs run_defs)
  with empty_ledger_everyone_eligible [OF h1 h2 h3] show ?thesis by simp
qed

subsection \<open>C7: the ledger only grows\<close>

text \<open>
  Claim C7. After a run that draws, the winners file holds the rows it held before, in
  their order, followed by the rows of the new winners, as many as the operator asked for.
  Nothing of the history is dropped, and a name may occur in it several times. The file
  read is a sheet: without columns it has no rows.
\<close>

theorem ledger_append_only:
  assumes "main w = Inr res"
    and "df_nouveaux_gagnants res = Some new"
    and "\<forall>g. gagnants_xlsx w = Some g \<longrightarrow> columns g = [] \<longrightarrow> rows g = []"
  shows "\<exists>final nb. gagnants_xlsx_after res = Some final
           \<and> rows final = (case gagnants_xlsx w of None \<Rightarrow> [] | Some g \<Rightarrow> rows g) @ rows new
           \<and> user_input w = Some nb \<and> 0 < nb \<and> int (length (rows new)) = nb"
proof -
  from main_success[OF assms(1,2)] obtain el m where
    el: "eligible_pool w = Inr el" and res: "res = main_draw_and_save w (gagnants_xlsx w) el m"
    by blast
  from draw_success[OF assms(2)[unfolded res]] obtain nb where
    nb: "user_input w = Some nb" "0 < nb" "nb \<le> int (length (rows el))"
    and new: "new = assign_column
                     (el\<lparr>rows := draw_sample (random_source w) (nat nb) (rows el)\<rparr>)
                     colonne_heure (strftime_Ymd_HMS (clock w))"
    and after: "gagnants_xlsx_after res =
               Some (case gagnants_xlsx w of None \<Rightarrow> new
                     | Some old \<Rightarrow> if is_empty old then new else concat_frames old new)"
    unfolding res by blast
  have len: "int (length (rows new)) = nb"
    using nb by (simp add: new assign_column_def length_draw_sample)
  have "rows (case gagnants_xlsx w of None \<Rightarrow> new
                     | Some old \<Rightarrow> if is_empty old then new else concat_frames old new)
        = (case gagnants_xlsx w of None \<Rightarrow> [] | Some g \<Rightarrow> rows g) @ rows new"
    using assms(3) by (auto simp: is_empty_def concat_frames_def split: option.splits)
  with after len nb show ?thesis by simp
qed

theorem ledger_append_only_witness:
  "\<exists>res new final. main second_run = Inr res
     \<and> df_nouveaux_gagnants res = Some new
     \<and> gagnants_xlsx_after res = Some final
     \<and> map (\<lambda>r. r colonne_id_ticket) (rows new) = [Some ''T4'']
     \<and> rows final = rows (the (gagnants_xlsx second_run)) @ rows new
     \<and> map (\<lambda>r. r colonne_nom) (rows final) = [Some ''A'', Some ''B'', Some ''B'']"
proof -
  have "\<exists>res new. main second_run = Inr res \<and> df_nouveaux_gagnants res = Some new
     \<and> map (\<lambda>r. r colonne_id_ticket) (rows new) = [Some ''T4'']
     \<and> map (\<lambda>r. r colonne_nom) (rows new) = [Some ''B'']"
    by (simp add: main_defs example_defs run_defs)
  then obtain res new where m: "main second_run = Inr res"
    and n: "df_nouveaux_gagnants res = Some new"
    and t: "map (\<lambda>r. r colonne_id_ticket) (rows new) = [Some ''T4'']"
    and b: "map (\<lambda>r. r colonne_nom) (rows new) = [Some ''B'']"
    by auto
  have h: "\<forall>g. gagnants_xlsx second_run = Some g \<longrightarrow> columns g = [] \<longrightarrow> rows g = []"
    by (simp add: example_defs)
  from ledger_append_only [OF m n h] obtain final where
    f: "gagnants_xlsx_after res = Some final"
    and r: "rows final =
      (case gagnants_xlsx second_run of None \<Rightarrow> [] | Some g \<Rightarrow> rows g) @ rows new"
    by blast
  have r': "rows final = rows (the (gagnants_xlsx second_run)) @ rows new"
    using r by (simp add: second_run_def)
  have x: "map (\<lambda>r. r colonne_nom) (rows final) = [Some ''A'', Some ''B'', Some ''B'']"
    unfolding r' map_append b by (simp add: example_defs)
  show ?thesis
    by (rule exI[of _ res], rule exI[of _ new], rule exI[of _ final]) (intro conjI m n f t r' x)
qed

subsection \<open>C8: a count that is not a positive integer\<close>

text \<open>
  Claim C8. When the operator's answer is not an integer, or is an integer that is not
  positive, a run that returns has sampled nothing, has stamped nothing and has left the
  winners file as it was; it has not printed that the file was updated. When the run
  reaches the question (its candidate and eligible pools are not empty) it returns with
  the matching error message as the last thing printed. A run that raises KeyError does
  so in step 3, before the question and before any write.
\<close>

theorem invalid_count_aborts:
  assumes "user_input w = None \<or> (\<exists>n. user_input w = Some n \<and> n \<le> 0)"
  shows "(\<forall>res. main w = Inr res \<longrightarrow>
            gagnants_xlsx_after res = gagnants_xlsx w \<and> df_nouveaux_gagnants res = None
            \<and> WinnersFileUpdated \<notin> set (printed res))
       \<and> (\<forall>el. \<not> is_empty (candidate_pool w) \<and> eligible_pool w = Inr el \<and> \<not> is_empty el \<longrightarrow>
            (\<exists>res. main w = Inr res \<and>
               last (printed res) =
                 (if user_input w = None then InvalidInteger else NonPositiveCount)))"
proof (intro conjI allI impI)
  fix res assume r: "main w = Inr res"
  show "gagnants_xlsx_after res = gagnants_xlsx w"
    using r by (auto simp: main_unfold draw_invalid_count[OF assms] split: if_splits sum.splits)
  show "df_nouveaux_gagnants res = None"
    using r by (auto simp: main_unfold draw_invalid_count[OF assms] split: if_splits sum.splits)
  show "WinnersFileUpdated \<notin> set (printed res)"
    using r load_messages[of "visiteurs_xlsx w" "benevoles_xlsx w"]
      ineligible_messages[of "gagnants_xlsx w" colonne_nom colonne_role]
    by (auto simp: main_unfold draw_invalid_count[OF assms] split: if_splits sum.splits)
next
  fix el assume "\<not> is_empty (candidate_pool w) \<and> eligible_pool w = Inr el \<and> \<not> is_empty el"
  then show "\<exists>res. main w = Inr res \<and>
      last (printed res) = (if user_input w = None then InvalidInteger else NonPositiveCount)"
    by (simp add: main_unfold draw_invalid_count[OF assms])
qed

theorem invalid_count_aborts_witness:
  "\<exists>res. main zero_count_run = Inr res
     \<and> gagnants_xlsx_after res = None
     \<and> df_nouveaux_gagnants res = None
     \<and> last (printed res) = NonPositiveCount"
proof -
  have h: "user_input zero_count_run = None
           \<or> (\<exists>n. user_input zero_count_run = Some n \<and> n \<le> 0)"
    by (simp add: example_defs)
  have e: "\<not> is_empty (candidate_pool zero_count_run)
           \<and> eligible_pool zero_count_run = Inr (candidate_pool zero_count_run)
           \<and> \<not> is_empty (candidate_pool zero_count_run)"
    by (simp add: example_defs run_defs)
  have u: "user_input zero_count_run \<noteq> None" "gagnants_xlsx zero_count_run = None"
    by (simp_all add: example_defs)
  note T = invalid_count_aborts [OF h]
  from T [THEN conjunct2] e obtain res where
    m: "main zero_count_run = Inr res" and l: "last (printed res) = NonPositiveCount"
    using u by auto
  from T [THEN conjunct1] m have "gagnants_xlsx_after res = gagnants_xlsx zero_count_run"
    and "df_nouveaux_gagnants res = None" by blast+
  with m l u show ?thesis by auto
qed

subsection \<open>C10: one timestamp for a draw\<close>

text \<open>
  Claim C10. Every winner of a run carries the same draw time: the clock is read once and
  its rendering, of the shape \<open>YYYY-MM-DD HH:MM:SS\<close>, is written into every row of the
  new winners.
\<close>

theorem one_timestamp_per_draw:
  assumes "main w = Inr res"
    and "df_nouveaux_gagnants res = Some new"
  shows "(\<forall>r \<in> set (rows new). r colonne_heure = Some (strftime_Ymd_HMS (clock w)))
         \<and> has_shape ''9999-99-99 99:99:99'' (strftime_Ymd_HMS (clock w))"
proof -
  from main_success[OF assms] obtain el m where
    res: "res = main_draw_and_save w (gagnants_xlsx w) el m" by blast
  from draw_success[OF assms(2)[unfolded res]] obtain nb where
    "new = assign_column
                     (el\<lparr>rows := draw_sample (random_source w) (nat nb) (rows el)\<rparr>)
                     colonne_heure (strftime_Ymd_HMS (clock w))"
    by blast
  then show ?thesis by (auto simp: assign_column_def strftime_shape)
qed

theorem one_timestamp_per_draw_witness:
  "\<exists>res new. main first_run = Inr res
     \<and> df_nouveaux_gagnants res = Some new
     \<and> map (\<lambda>r. r colonne_nom) (rows new) = [Some ''B'', Some ''A'']
     \<and> (\<lambda>r. r colonne_heure) ` set (rows new) = {Some ''2025-06-07 12:00:05''}"
proof -
  have "\<exists>res new. main first_run = Inr res \<and> df_nouveaux_gagnants res = Some new
     \<and> map (\<lambda>r. r colonne_nom) (rows new) = [Some ''B'', Some ''A'']"
    by (simp add: main_defs example_defs run_defs numeral_2_eq_2)
  then obtain res new where m: "main first_run = Inr res"
    and n: "df_nouveaux_gagnants res = Some new"
    and b: "map (\<lambda>r. r colonne_nom) (rows new) = [Some ''B'', Some ''A'']"
    by auto
  have c: "strftime_Ymd_HMS (clock first_run) = ''2025-06-07 12:00:05''"
    by code_simp
  from b have ne: "rows new \<noteq> []" by auto
  from one_timestamp_per_draw [OF m n]
  have "\<forall>r \<in> set (rows new). r colonne_heure = Some ''2025-06-07 12:00:05''"
    unfolding c by blast
  with ne have i: "(\<lambda>r. r colonne_heure) ` set (rows new) = {Some ''2025-06-07 12:00:05''}"
    by (cases "rows new") auto
  show ?thesis
    by (rule exI[of _ res], rule exI[of _ new]) (intro conjI m n b i)
qed

section \<open>Properties of the pivot\<close>

subsection \<open>Auxiliary facts\<close>

lemma with_num_reponse_Nil [simp]: "with_num_reponse seen [] = []"
  by (simp add: with_num_reponse_def)

lemma with_num_reponse_None:
  "group_key n e = None \<Longrightarrow>
   with_num_reponse seen ((n, e, a) # rest) =
     \<lparr>nom_du_participant = n, email = e, reponses_des_participants = a, num_reponse = None\<rparr>
     # with_num_reponse seen rest"
  by (simp add: with_num_reponse_def)

lemma with_num_reponse_Some:
  "group_key n e = Some g \<Longrightarrow>
   with_num_reponse seen ((n, e, a) # rest) =
     \<lparr>nom_du_participant = n, email = e, reponses_des_participants = a,
      num_reponse = Some (count_list seen g)\<rparr>
     # with_num_reponse (g # seen) rest"
  by (simp add: with_num_reponse_def)

lemma group_key_Some_iff: "group_key n e = Some g \<longleftrightarrow> n = Some (fst g) \<and> e = Some (snd g)"
  by (cases n; cases e) auto

lemma group_key_None_iff: "group_key n e = None \<longleftrightarrow> n = None \<or> e = None"
  by (cases n; cases e) auto

lemma upt_add_Suc: "[s ..< s + Suc m] = s # [Suc s ..< Suc s + m]"
  using upt_conv_Cons[of s "s + Suc m"] by simp

text \<open>The cells of one group carry the ordinals in sequence, from the number already seen.\<close>

lemma cells_of_group:
  assumes "\<forall>t \<in> set kept. snd (snd t) \<noteq> None"
  shows "filter (\<lambda>(g', k, a). g' = g) (concat (map pivot_cell (with_num_reponse seen kept)))
         = map (\<lambda>(i, a). (g, i, a))
             (zip [count_list seen g ..< count_list seen g + length (answers_of kept g)]
                  (answers_of kept g))"
  using assms
proof (induction kept arbitrary: seen)
  case Nil
  then show ?case by (simp add: answers_of_def)
next
  case (Cons t kept)
  obtain n e a where t: "t = (n, e, a)" by (cases t) auto
  from Cons.prems obtain a' where a: "a = Some a'" by (auto simp: t)
  have rest: "\<forall>t \<in> set kept. snd (snd t) \<noteq> None" using Cons.prems by simp
  show ?case
  proof (cases "group_key n e")
    case None
    then have "answer_of g (n, e, a) = []"
      by (cases n; cases e) auto
    then show ?thesis
      using Cons.IH[OF rest, of seen] None
      by (simp add: t with_num_reponse_None answers_of_def pivot_cell.simps)
  next
    case (Some h)
    then have ne: "n = Some (fst h)" "e = Some (snd h)" by (simp_all add: group_key_Some_iff)
    show ?thesis
    proof (cases "h = g")
      case True
      have ans: "answers_of (t # kept) g = a' # answers_of kept g"
        using True by (simp add: answers_of_def t ne a)
      have L: "concat (map pivot_cell (with_num_reponse seen (t # kept)))
               = (g, count_list seen g, a') # concat (map pivot_cell (with_num_reponse (g # seen) kept))"
        using Some True by (simp add: t a with_num_reponse_Some pivot_cell.simps)
      have R: "zip [count_list seen g ..< count_list seen g + length (a' # answers_of kept g)]
                 (a' # answers_of kept g)
               = (count_list seen g, a')
                 # zip [count_list (g # seen) g ..< count_list (g # seen) g + length (answers_of kept g)]
                     (answers_of kept g)"
        using upt_add_Suc[of "count_list seen g" "length (answers_of kept g)"]
        by (simp del: upt_Suc)
      show ?thesis
        unfolding L ans R using Cons.IH[OF rest, of "g # seen"] by (simp del: upt_Suc)
    next
      case False
      have ans: "answers_of (t # kept) g = answers_of kept g"
        using False by (auto simp: answers_of_def t ne a prod_eq_iff)
      have L: "concat (map pivot_cell (with_num_reponse seen (t # kept)))
               = (h, count_list seen h, a') # concat (map pivot_cell (with_num_reponse (h # seen) kept))"
        using Some by (simp add: t a with_num_reponse_Some pivot_cell.simps)
      show ?thesis
        unfolding L ans using Cons.IH[OF rest, of "h # seen"] False by (simp del: upt_Suc)
    qed
  qed
qed

lemma filter_ordinal:
  "filter (\<lambda>(g', k, a). k = c) (map (\<lambda>(i, a). (g, i, a)) (zip [s ..< s + length as] as))
   = (if s \<le> c \<and> c < s + length as then [(g, c, as ! (c - s))] else [])"
proof (induction as arbitrary: s)
  case Nil
  then show ?case by simp
next
  case (Cons a as)
  have "[s ..< s + length (a # as)] = s # [Suc s ..< Suc s + length as]"
    using upt_add_Suc[of s "length as"] by simp
  then show ?case
    using Cons.IH[of "Suc s"] by (auto simp: Suc_diff_le simp del: upt_Suc)
qed

lemma first_value_group:
  assumes "\<forall>t \<in> set kept. snd (snd t) \<noteq> None"
  shows "first_value (concat (map pivot_cell (with_num_reponse [] kept))) g c
         = (if c < length (answers_of kept g) then Some (answers_of kept g ! c) else None)"
proof -
  let ?cells = "concat (map pivot_cell (with_num_reponse [] kept))"
  have "filter (\<lambda>(g', k, a). g' = g \<and> k = c) ?cells
        = filter (\<lambda>(g', k, a). k = c) (filter (\<lambda>(g', k, a). g' = g) ?cells)"
    unfolding filter_filter by (rule filter_cong) auto
  also have "\<dots> = (if c < length (answers_of kept g) then [(g, c, answers_of kept g ! c)] else [])"
    using cells_of_group[OF assms, of g "[]"] filter_ordinal[of c g 0 "answers_of kept g"]
    by simp
  finally show ?thesis by (simp add: first_value_def)
qed

lemma group_data_Inr:
  assumes "group_data_by_nam_email df = Inr rs"
  shows "rs = with_num_reponse [] (filter (\<lambda>(n, e, a). a \<noteq> None) (selected df))"
  using assms by (auto simp: group_data_by_nam_email_def Let_def split: list.splits)

lemma group_data_columns:
  assumes "set [''nom_du_participant'', ''email'', ''reponses_des_participants''] \<subseteq> set (columns df)"
  shows "group_data_by_nam_email df
         = Inr (with_num_reponse [] (filter (\<lambda>(n, e, a). a \<noteq> None) (selected df)))"
  using assms by (simp add: group_data_by_nam_email_def)

lemma kept_answered: "\<forall>t \<in> set (filter (\<lambda>(n, e, a). a \<noteq> None) ts). snd (snd t) \<noteq> None"
  by auto

lemma length_cumcount [simp]: "length (cumcount seen ks) = length ks"
  by (induction seen ks rule: cumcount.induct) auto

lemma length_with_num_reponse [simp]: "length (with_num_reponse seen kept) = length kept"
  by (simp add: with_num_reponse_def)

lemma with_num_reponse_Cons:
  "with_num_reponse seen ((n, e, a) # rest) =
     \<lparr>nom_du_participant = n, email = e, reponses_des_participants = a,
      num_reponse = map_option (count_list seen) (group_key n e)\<rparr>
     # with_num_reponse (case group_key n e of None \<Rightarrow> seen | Some g \<Rightarrow> g # seen) rest"
  by (cases "group_key n e") (simp_all add: with_num_reponse_None with_num_reponse_Some)

lemma projection_with_num_reponse:
  "map (\<lambda>r. (nom_du_participant r, email r, reponses_des_participants r))
     (with_num_reponse seen kept) = kept"
proof (induction kept arbitrary: seen)
  case Nil
  then show ?case by simp
next
  case (Cons t kept)
  obtain n e a where t: "t = (n, e, a)" by (cases t) auto
  show ?case unfolding t with_num_reponse_Cons by (simp add: Cons.IH)
qed

lemma ordinal_with_num_reponse:
  "i < length kept \<Longrightarrow>
   num_reponse (with_num_reponse seen kept ! i) =
     (case group_key (fst (kept ! i)) (fst (snd (kept ! i))) of
        None \<Rightarrow> None
      | Some g \<Rightarrow>
          Some (count_list seen g
                + length (filter (\<lambda>t. group_key (fst t) (fst (snd t)) = Some g) (take i kept))))"
proof (induction kept arbitrary: seen i)
  case Nil
  then show ?case by simp
next
  case (Cons t kept)
  obtain n e a where t: "t = (n, e, a)" by (cases t) auto
  show ?case
  proof (cases i)
    case 0
    then show ?thesis unfolding t with_num_reponse_Cons
      by (simp split: option.splits)
  next
    case (Suc j)
    with Cons.prems have j: "j < length kept" by simp
    show ?thesis
      unfolding t with_num_reponse_Cons Suc
      using Cons.IH[OF j, of "case group_key n e of None \<Rightarrow> seen | Some g \<Rightarrow> g # seen"]
      by (auto split: option.splits)
  qed
qed

lemma answers_of_filter:
  "answers_of (filter (\<lambda>(n, e, a). a \<noteq> None) ts) g = answers_of ts g"
proof (induction ts)
  case Nil
  then show ?case by simp
next
  case (Cons t ts)
  obtain n e a where t: "t = (n, e, a)" by (cases t) auto
  have "a = None \<Longrightarrow> answer_of g (n, e, a) = []" by (cases n; cases e) auto
  with Cons show ?case by (auto simp: answers_of_def t)
qed

lemma present_map_if:
  "present (map (\<lambda>c. if c < m then Some (f c) else None) cols) = map f (filter (\<lambda>c. c < m) cols)"
  by (induction cols) (auto simp: present_def)

lemma filter_less_sorted:
  assumes "sorted xs" "distinct xs" "{0..<m} \<subseteq> set xs"
  shows "filter (\<lambda>c. c < m) xs = [0..<m]"
proof (rule sorted_distinct_set_unique)
  show "sorted (filter (\<lambda>c. c < m) xs)" using assms(1) by (rule sorted_wrt_filter)
  show "distinct (filter (\<lambda>c. c < m) xs)" using assms(2) by simp
  show "sorted [0..<m]" by simp
  show "distinct [0..<m]" by simp
  show "set (filter (\<lambda>c. c < m) xs) = set [0..<m]" using assms(3) by auto
qed

lemma ordinals_in_columns:
  assumes "\<forall>t \<in> set kept. snd (snd t) \<noteq> None"
    and "i < length (answers_of kept g)"
  shows "i \<in> (\<lambda>(g, k, a). k) ` set (concat (map pivot_cell (with_num_reponse [] kept)))"
proof -
  let ?cells = "concat (map pivot_cell (with_num_reponse [] kept))"
  let ?as = "answers_of kept g"
  have "(g, i, ?as ! i) \<in> set (map (\<lambda>(i, a). (g, i, a)) (zip [0 ..< length ?as] ?as))"
    using assms(2) by (force simp: set_zip)
  then have "(g, i, ?as ! i) \<in> set (filter (\<lambda>(g', k, a). g' = g) ?cells)"
    using cells_of_group[OF assms(1), of g "[]"] by simp
  then have "(g, i, ?as ! i) \<in> set ?cells" by simp
  then show ?thesis by force
qed

lemma pivoted_row:
  assumes "\<forall>t \<in> set kept. snd (snd t) \<noteq> None"
    and "cells = concat (map pivot_cell (with_num_reponse [] kept))"
    and "cols = sort (remdups (map (\<lambda>(g, k, a). k) cells))"
  shows "present (map (first_value cells g) cols) = answers_of kept g"
proof -
  let ?as = "answers_of kept g"
  have fv: "first_value cells g = (\<lambda>c. if c < length ?as then Some (?as ! c) else None)"
    unfolding assms(2) by (intro ext) (rule first_value_group[OF assms(1)])
  have "{0..<length ?as} \<subseteq> set cols"
  proof
    fix i assume "i \<in> {0..<length ?as}"
    then have "i < length ?as" by simp
    from ordinals_in_columns[OF assms(1) this] show "i \<in> set cols"
      unfolding assms(3) assms(2) by simp
  qed
  moreover have "sorted cols" "distinct cols" unfolding assms(3) by simp_all
  ultimately have "filter (\<lambda>c. c < length ?as) cols = [0..<length ?as]"
    by (intro filter_less_sorted)
  then show ?thesis
    unfolding fv present_map_if by (simp add: map_nth)
qed

lemma rows_of_with_num_reponse:
  assumes "\<forall>t \<in> set kept. snd (snd t) \<noteq> None"
    and "r \<in> set (with_num_reponse seen kept)"
  shows "reponses_des_participants r \<noteq> None
         \<and> (num_reponse r = None \<longleftrightarrow> group_key (nom_du_participant r) (email r) = None)"
  using assms
proof (induction kept arbitrary: seen)
  case Nil
  then show ?case by simp
next
  case (Cons t kept)
  obtain n e a where t: "t = (n, e, a)" by (cases t) auto
  from Cons.prems(2) consider
    "r = \<lparr>nom_du_participant = n, email = e, reponses_des_participants = a,
          num_reponse = map_option (count_list seen) (group_key n e)\<rparr>"
    | "r \<in> set (with_num_reponse (case group_key n e of None \<Rightarrow> seen | Some g \<Rightarrow> g # seen) kept)"
    unfolding t with_num_reponse_Cons by auto
  then show ?case
  proof cases
    case 1
    then show ?thesis using Cons.prems(1) by (simp add: t)
  next
    case 2
    then show ?thesis using Cons.IH Cons.prems(1) by simp
  qed
qed

lemma pivot_cell_iff:
  "(g, k, a) \<in> set (pivot_cell r) \<longleftrightarrow>
     group_key (nom_du_participant r) (email r) = Some g \<and> num_reponse r = Some k
     \<and> reponses_des_participants r = Some a"
  by (cases "group_key (nom_du_participant r) (email r)"; cases "num_reponse r";
      cases "reponses_des_participants r")
     (auto simp: pivot_cell.simps)

lemma index_of_pivot:
  assumes "\<forall>t \<in> set kept. snd (snd t) \<noteq> None"
    and "rs = with_num_reponse [] kept"
  shows "fst ` set (concat (map pivot_cell rs))
         = {(n, e). \<exists>r \<in> set rs. nom_du_participant r = Some n \<and> email r = Some e}"
proof (intro set_eqI iffI)
  fix g assume "g \<in> fst ` set (concat (map pivot_cell rs))"
  then obtain k a r where "r \<in> set rs" "(g, k, a) \<in> set (pivot_cell r)" by force
  then have "r \<in> set rs" "group_key (nom_du_participant r) (email r) = Some g"
    by (simp_all add: pivot_cell_iff)
  then show "g \<in> {(n, e). \<exists>r \<in> set rs. nom_du_participant r = Some n \<and> email r = Some e}"
    by (auto simp: group_key_Some_iff)
next
  fix g assume "g \<in> {(n, e). \<exists>r \<in> set rs. nom_du_participant r = Some n \<and> email r = Some e}"
  then obtain r where r: "r \<in> set rs" "group_key (nom_du_participant r) (email r) = Some g"
    by (auto simp: group_key_Some_iff)
  from rows_of_with_num_reponse[OF assms(1) r(1)[unfolded assms(2)]] r(2)
  obtain k a where "num_reponse r = Some k" "reponses_des_participants r = Some a" by auto
  with r have "(g, k, a) \<in> set (concat (map pivot_cell rs))"
    by (auto simp: pivot_cell_iff)
  then show "g \<in> fst ` set (concat (map pivot_cell rs))" by force
qed

lemma answer_of_key: "answer_of g t \<noteq> [] \<Longrightarrow> group_key (fst t) (fst (snd t)) = Some g"
proof -
  obtain n e a where t: "t = (n, e, a)" by (cases t) auto
  show "answer_of g t \<noteq> [] \<Longrightarrow> group_key (fst t) (fst (snd t)) = Some g"
    unfolding t by (cases n; cases e; cases a) (auto split: if_splits)
qed

lemma mset_answer_of_keys:
  "distinct ks \<Longrightarrow>
   mset (concat (map (\<lambda>g. answer_of g t) ks))
   = (case group_key (fst t) (fst (snd t)) of
        None \<Rightarrow> {#}
      | Some g \<Rightarrow> if g \<in> set ks then mset (answer_of g t) else {#})"
proof (induction ks)
  case Nil
  then show ?case by (simp split: option.splits)
next
  case (Cons k ks)
  then have IH: "mset (concat (map (\<lambda>g. answer_of g t) ks))
   = (case group_key (fst t) (fst (snd t)) of
        None \<Rightarrow> {#}
      | Some g \<Rightarrow> if g \<in> set ks then mset (answer_of g t) else {#})"
    and k: "k \<notin> set ks" by simp_all
  show ?case
  proof (cases "group_key (fst t) (fst (snd t)) = Some k")
    case True
    then show ?thesis using IH k by simp
  next
    case False
    then have "answer_of k t = []" using answer_of_key by blast
    then show ?thesis using IH False by (auto split: option.splits)
  qed
qed

lemma mset_concat_append:
  "mset (concat (map (\<lambda>g. f g @ h g) ks)) = mset (concat (map f ks)) + mset (concat (map h ks))"
  by (induction ks) (simp_all add: ac_simps)

lemma mset_answers_partition:
  assumes "distinct ks"
    and "\<forall>t \<in> set ts. \<forall>g. group_key (fst t) (fst (snd t)) = Some g \<longrightarrow> g \<in> set ks"
  shows "mset (concat (map (answers_of ts) ks)) = mset (concat (map own_answer ts))"
  using assms(2)
proof (induction ts)
  case Nil
  then show ?case by (simp add: answers_of_def)
next
  case (Cons t ts)
  have eq: "answers_of (t # ts) = (\<lambda>g. answer_of g t @ answers_of ts g)"
    by (intro ext) (simp add: answers_of_def)
  have "mset (concat (map (answers_of (t # ts)) ks))
        = mset (concat (map (\<lambda>g. answer_of g t) ks)) + mset (concat (map (answers_of ts) ks))"
    unfolding eq by (rule mset_concat_append)
  moreover have "mset (concat (map (\<lambda>g. answer_of g t) ks)) = mset (own_answer t)"
    using Cons.prems by (simp add: mset_answer_of_keys[OF assms(1)] own_answer_def split: option.splits)
  ultimately show ?case using Cons by simp
qed

lemma present_map_filter:
  "present (map f (filter P xs))
   = concat (map (\<lambda>x. if P x then (case f x of None \<Rightarrow> [] | Some v \<Rightarrow> [v]) else []) xs)"
  by (induction xs) (auto simp: present_def)

lemma own_answer_eq:
  "own_answer (n, e, a)
   = (if n \<noteq> None \<and> e \<noteq> None then (case a of None \<Rightarrow> [] | Some v \<Rightarrow> [v]) else [])"
  by (cases n; cases e; cases a) (auto simp: own_answer_def)

lemma nearest_Nil [simp]: "nearest [] = None"
  by (simp add: nearest_def)



lemma length_ffill_from [simp]: "length (ffill_from prev rs) = length rs"
  by (induction rs arbitrary: prev) (simp_all add: Let_def)




lemmas sheet_defs =
  answer_sheet_def sparse_sheet_def no_email_sheet_def answer_columns_of_sheet_def answer_def no_answer_def

lemmas pivot_defs =
  group_data_by_nam_email_def selected_def with_num_reponse_def pivot_responses_def
  pivot_cell.simps first_value_def present_def answers_of_def Let_def

text \<open>What \<open>group_data_by_nam_email\<close> returns, and the pivot of it.\<close>

lemma group_data_projection:
  assumes "group_data_by_nam_email df = Inr rs"
  shows "map (\<lambda>r. (nom_du_participant r, email r, reponses_des_participants r)) rs
           = filter (\<lambda>(n, e, a). a \<noteq> None) (selected df)"
proof -
  let ?kept = "filter (\<lambda>(n, e, a). a \<noteq> None) (selected df)"
  have rs: "rs = with_num_reponse [] ?kept" using assms by (rule group_data_Inr)
  show ?thesis unfolding rs by (rule projection_with_num_reponse)
qed

lemma group_data_ordinal:
  assumes "group_data_by_nam_email df = Inr rs" and i: "i < length rs"
  shows "num_reponse (rs ! i) =
           (case group_key (nom_du_participant (rs ! i)) (email (rs ! i)) of
              None \<Rightarrow> None
            | Some g \<Rightarrow>
                Some (length (filter (\<lambda>r. group_key (nom_du_participant r) (email r) = Some g)
                                (take i rs))))"
proof -
  let ?kept = "filter (\<lambda>(n, e, a). a \<noteq> None) (selected df)"
  let ?proj = "\<lambda>r. (nom_du_participant r, email r, reponses_des_participants r)"
  have rs: "rs = with_num_reponse [] ?kept" using assms(1) by (rule group_data_Inr)
  have proj: "map ?proj rs = ?kept" using assms(1) by (rule group_data_projection)
  from i have ik: "i < length ?kept" by (simp add: rs)
  have nth: "?kept ! i = ?proj (rs ! i)" unfolding proj[symmetric] using i by simp
  have tk: "take i ?kept = map ?proj (take i rs)" unfolding proj[symmetric] by (simp add: take_map)
  have "num_reponse (with_num_reponse [] ?kept ! i) =
      (case group_key (fst (?kept ! i)) (fst (snd (?kept ! i))) of
         None \<Rightarrow> None
       | Some g \<Rightarrow>
           Some (count_list [] g
                 + length (filter (\<lambda>t. group_key (fst t) (fst (snd t)) = Some g) (take i ?kept))))"
    using ik by (rule ordinal_with_num_reponse)
  then show ?thesis
    unfolding rs[symmetric] nth tk
    by (simp add: filter_map o_def split: option.splits)
qed

lemma group_data_pivot_row:
  assumes "group_data_by_nam_email df = Inr rs"
    and "p \<in> set (participants (pivot_responses rs))"
  shows "length (snd p) = length (answer_columns (pivot_responses rs))
       \<and> present (snd p) = answers_of (selected df) (fst p)"
proof -
  let ?kept = "filter (\<lambda>(n, e, a). a \<noteq> None) (selected df)"
  have rs: "rs = with_num_reponse [] ?kept" using assms(1) by (rule group_data_Inr)
  from assms(2)
  have p: "snd p = map (first_value (concat (map pivot_cell rs)) (fst p))
                    (sort (remdups (map (\<lambda>(g, k, a). k) (concat (map pivot_cell rs)))))"
    by (auto simp: pivot_responses_def Let_def)
  have "present (snd p) = answers_of ?kept (fst p)"
    unfolding p rs by (rule pivoted_row[OF kept_answered refl refl])
  moreover have "length (snd p) = length (answer_columns (pivot_responses rs))"
    unfolding p by (simp add: pivot_responses_def Let_def)
  ultimately show ?thesis
    unfolding answers_of_filter by (intro conjI)
qed

lemma pivot_columns_sorted:
  "sorted (answer_columns (pivot_responses rs))"
  "distinct (answer_columns (pivot_responses rs))"
  by (simp_all add: pivot_responses_def Let_def)
subsection \<open>C3: the ordinals follow the order of the rows\<close>

text \<open>
  Claim C3. \<open>group_data_by_nam_email\<close> keeps exactly the rows that have an answer, in
  their order, and numbers each kept row with the count of the kept rows above it that
  have the same name and email (a row without a name or an email gets no number). In the
  pivoted table the answer columns are in increasing order, and the cells of a
  participant that are not missing, read in that order, are the participant's answers in
  the order of the input rows.
\<close>

theorem pivot_keeps_answer_order:
  assumes "group_data_by_nam_email df = Inr rs"
  shows "map (\<lambda>r. (nom_du_participant r, email r, reponses_des_participants r)) rs
           = filter (\<lambda>(n, e, a). a \<noteq> None) (selected df)
       \<and> (\<forall>i < length rs.
             num_reponse (rs ! i) =
               (case group_key (nom_du_participant (rs ! i)) (email (rs ! i)) of
                  None \<Rightarrow> None
                | Some g \<Rightarrow>
                    Some (length (filter (\<lambda>r. group_key (nom_du_participant r) (email r) = Some g)
                                    (take i rs)))))
       \<and> sorted (answer_columns (pivot_responses rs))
       \<and> distinct (answer_columns (pivot_responses rs))
       \<and> (\<forall>p \<in> set (participants (pivot_responses rs)).
             length (snd p) = length (answer_columns (pivot_responses rs))
             \<and> present (snd p) = answers_of (selected df) (fst p))"
proof (intro conjI allI impI ballI)
  show "map (\<lambda>r. (nom_du_participant r, email r, reponses_des_participants r)) rs
           = filter (\<lambda>(n, e, a). a \<noteq> None) (selected df)"
    using assms by (rule group_data_projection)
next
  fix i assume "i < length rs"
  with assms show "num_reponse (rs ! i) =
               (case group_key (nom_du_participant (rs ! i)) (email (rs ! i)) of
                  None \<Rightarrow> None
                | Some g \<Rightarrow>
                    Some (length (filter (\<lambda>r. group_key (nom_du_participant r) (email r) = Some g)
                                    (take i rs))))"
    by (rule group_data_ordinal)
next
  show "sorted (answer_columns (pivot_responses rs))" by (rule pivot_columns_sorted)
next
  show "distinct (answer_columns (pivot_responses rs))" by (rule pivot_columns_sorted)
next
  fix p assume "p \<in> set (participants (pivot_responses rs))"
  with assms show "length (snd p) = length (answer_columns (pivot_responses rs))"
    by (rule group_data_pivot_row[THEN conjunct1])
next
  fix p assume "p \<in> set (participants (pivot_responses rs))"
  with assms show "present (snd p) = answers_of (selected df) (fst p)"
    by (rule group_data_pivot_row[THEN conjunct2])
qed

theorem pivot_keeps_answer_order_witness:
  "\<exists>rs. group_data_by_nam_email answer_sheet = Inr rs
     \<and> map reponses_des_participants rs = [Some ''Maybe'', Some ''Yes'', Some ''No'']
     \<and> map num_reponse rs = [Some 0, Some 0, Some 1]
     \<and> participants (pivot_responses rs)
         = [((''Alice'', ''e1''), [Some ''Yes'', Some ''No'']),
            ((''Bob'', ''e2''), [Some ''Maybe'', None])]
     \<and> answers_of (selected answer_sheet) (''Alice'', ''e1'') = present [Some ''Yes'', Some ''No'']"
proof -
  define rs where
    "rs = with_num_reponse [] (filter (\<lambda>(n, e, a). a \<noteq> None) (selected answer_sheet))"
  have g: "group_data_by_nam_email answer_sheet = Inr rs"
    unfolding rs_def by (rule group_data_columns) (simp add: sheet_defs)
  have a: "map reponses_des_participants rs = [Some ''Maybe'', Some ''Yes'', Some ''No'']"
    and n: "map num_reponse rs = [Some 0, Some 0, Some 1]"
    by (simp_all add: rs_def sheet_defs pivot_defs)
  have p: "participants (pivot_responses rs)
         = [((''Alice'', ''e1''), [Some ''Yes'', Some ''No'']),
            ((''Bob'', ''e2''), [Some ''Maybe'', None])]"
    by (simp add: rs_def sheet_defs pivot_defs)
  have "((''Alice'', ''e1''), [Some ''Yes'', Some ''No'']) \<in> set (participants (pivot_responses rs))"
    unfolding p by simp
  with pivot_keeps_answer_order [OF g]
  have "present (snd ((''Alice'', ''e1''), [Some ''Yes'', Some ''No'']))
        = answers_of (selected answer_sheet) (fst ((''Alice'', ''e1''), [Some ''Yes'', Some ''No'']))"
    by blast
  then have s: "answers_of (selected answer_sheet) (''Alice'', ''e1'')
                = present [Some ''Yes'', Some ''No'']"
    by simp
  show ?thesis
    by (rule exI[of _ rs]) (intro conjI g a n p s)
qed

subsection \<open>C4: one row for each participant that has a name and an email\<close>

text \<open>
  Claim C4, as amended. For answer rows that are not empty, the pivoted table has one row
  for each (name, email) pair carried by an answer row that has both a name and an email,
  and no other row: no pair occurs twice, and the cells that are not missing hold the
  answers of the rows that have both a name and an email, each as many times as it was
  given. A row that lacks the name or the email gets no row in the pivoted table and its
  answer is in no cell. The answer rows are what \<open>group_data_by_nam_email\<close> hands to
  \<open>pivot_responses\<close>.
\<close>

theorem pivot_one_row_per_participant:
  assumes "group_data_by_nam_email df = Inr rs"
    and "rs \<noteq> []"
  shows "distinct (map fst (participants (pivot_responses rs)))
       \<and> set (map fst (participants (pivot_responses rs)))
           = {(n, e). \<exists>r \<in> set rs. nom_du_participant r = Some n \<and> email r = Some e}
       \<and> mset (concat (map (\<lambda>p. present (snd p)) (participants (pivot_responses rs))))
           = mset (present (map reponses_des_participants
                     (filter (\<lambda>r. nom_du_participant r \<noteq> None \<and> email r \<noteq> None) rs)))"
proof -
  let ?kept = "filter (\<lambda>(n, e, a). a \<noteq> None) (selected df)"
  let ?proj = "\<lambda>r. (nom_du_participant r, email r, reponses_des_participants r)"
  let ?cells = "concat (map pivot_cell rs)"
  let ?index = "sort (remdups (map fst ?cells))"
  let ?cols = "sort (remdups (map (\<lambda>(g, k, a). k) ?cells))"
  have rs: "rs = with_num_reponse [] ?kept" using assms(1) by (rule group_data_Inr)
  have proj: "map ?proj rs = ?kept" unfolding rs by (rule projection_with_num_reponse)
  have keys: "map fst (participants (pivot_responses rs)) = ?index"
    by (simp add: pivot_responses_def Let_def comp_def)
  have d: "distinct (map fst (participants (pivot_responses rs)))"
    unfolding keys by simp
  have "set ?index = fst ` set ?cells" by simp
  also have "\<dots> = {(n, e). \<exists>r \<in> set rs. nom_du_participant r = Some n \<and> email r = Some e}"
    by (rule index_of_pivot[OF kept_answered rs])
  finally have s: "set (map fst (participants (pivot_responses rs)))
           = {(n, e). \<exists>r \<in> set rs. nom_du_participant r = Some n \<and> email r = Some e}"
    unfolding keys .
  have "map (\<lambda>p. present (snd p)) (participants (pivot_responses rs))
        = map (\<lambda>g. present (map (first_value ?cells g) ?cols)) ?index"
    by (simp add: pivot_responses_def Let_def comp_def)
  also have "\<dots> = map (answers_of ?kept) ?index"
    unfolding rs by (intro map_cong refl pivoted_row[OF kept_answered refl refl])
  finally have rows: "concat (map (\<lambda>p. present (snd p)) (participants (pivot_responses rs)))
        = concat (map (answers_of ?kept) ?index)"
    by simp
  have covered: "\<forall>t \<in> set ?kept. \<forall>g. group_key (fst t) (fst (snd t)) = Some g \<longrightarrow> g \<in> set ?index"
  proof (intro ballI allI impI)
    fix t g assume t: "t \<in> set ?kept" and k: "group_key (fst t) (fst (snd t)) = Some g"
    from t proj obtain r where r: "r \<in> set rs" "t = ?proj r"
      by (metis (no_types, lifting) image_iff list.set_map)
    from r k have "nom_du_participant r = Some (fst g)" "email r = Some (snd g)"
      by (simp_all add: group_key_Some_iff)
    with r(1) have "g \<in> {(n, e). \<exists>r \<in> set rs. nom_du_participant r = Some n \<and> email r = Some e}"
      by (cases g) auto
    then show "g \<in> set ?index"
      using index_of_pivot[OF kept_answered rs] by simp
  qed
  have "mset (concat (map (answers_of ?kept) ?index)) = mset (concat (map own_answer ?kept))"
    by (rule mset_answers_partition[OF _ covered]) simp
  also have "concat (map own_answer ?kept) = concat (map (\<lambda>r. own_answer (?proj r)) rs)"
    unfolding proj[symmetric] by (simp add: comp_def)
  also have "\<dots> = present (map reponses_des_participants
                     (filter (\<lambda>r. nom_du_participant r \<noteq> None \<and> email r \<noteq> None) rs))"
    by (simp add: present_map_filter own_answer_eq)
  finally have m: "mset (concat (map (\<lambda>p. present (snd p)) (participants (pivot_responses rs))))
           = mset (present (map reponses_des_participants
                     (filter (\<lambda>r. nom_du_participant r \<noteq> None \<and> email r \<noteq> None) rs)))"
    unfolding rows .
  from d s m show ?thesis by (intro conjI)
qed

theorem pivot_one_row_per_participant_witness:
  "\<exists>rs. group_data_by_nam_email answer_sheet = Inr rs
     \<and> length rs = 3
     \<and> map fst (participants (pivot_responses rs)) = [(''Alice'', ''e1''), (''Bob'', ''e2'')]
     \<and> mset (concat (map (\<lambda>p. present (snd p)) (participants (pivot_responses rs))))
         = mset [''Maybe'', ''Yes'', ''No'']"
proof -
  define rs where
    "rs = with_num_reponse [] (filter (\<lambda>(n, e, a). a \<noteq> None) (selected answer_sheet))"
  have g: "group_data_by_nam_email answer_sheet = Inr rs"
    unfolding rs_def by (rule group_data_columns) (simp add: sheet_defs)
  have l: "length rs = 3" by (simp add: rs_def sheet_defs pivot_defs)
  then have ne: "rs \<noteq> []" by auto
  have k: "map fst (participants (pivot_responses rs)) = [(''Alice'', ''e1''), (''Bob'', ''e2'')]"
    by (simp add: rs_def sheet_defs pivot_defs)
  have a: "present (map reponses_des_participants
             (filter (\<lambda>r. nom_du_participant r \<noteq> None \<and> email r \<noteq> None) rs))
           = [''Maybe'', ''Yes'', ''No'']"
    by (simp add: rs_def sheet_defs pivot_defs)
  from pivot_one_row_per_participant [OF g ne]
  have m: "mset (concat (map (\<lambda>p. present (snd p)) (participants (pivot_responses rs))))
         = mset [''Maybe'', ''Yes'', ''No'']"
    unfolding a by blast
  show ?thesis
    by (rule exI[of _ rs]) (intro conjI g l k m)
qed

text \<open>
  Claim C4 as first stated, without the restriction to the rows that have both a name and
  an email, fails. In \<open>no_email_sheet\<close> Alice gave the answer Yes and no email, and she
  is the first participant, so that filling forward leaves her email missing. The answer
  rows are \<open>no_email_rows\<close>, Alice's and Bob's, with or without the filling; the pivoted
  table has Bob's row only, and the answer Yes is in no cell.
\<close>

theorem pivot_drops_participant_without_email:
  "group_data_by_nam_email no_email_sheet = Inr no_email_rows
   \<and> group_data_by_nam_email (ffill no_email_sheet) = Inr no_email_rows
   \<and> no_email_rows \<noteq> []
   \<and> map nom_du_participant no_email_rows = [Some ''Alice'', Some ''Bob'']
   \<and> map reponses_des_participants no_email_rows = [Some ''Yes'', Some ''Maybe'']
   \<and> participants (pivot_responses no_email_rows) = [((''Bob'', ''e2''), [Some ''Maybe''])]"
  by (simp add: no_email_rows_def ffill_def sheet_defs pivot_defs)

subsection \<open>C9: the entry point fills the answers forward\<close>



end
